theory Spec2Isabelle
  imports Complex_Main
begin

section \<open>A shallow embedding of the ingest scripts\<close>

text \<open>
  The three scripts under \<^verbatim>\<open>src/ingest\<close> (\<^verbatim>\<open>fetch_seed.py\<close>,
  \<^verbatim>\<open>usaspending_fetch.py\<close>, \<^verbatim>\<open>news_fetch.py\<close>) talk to the network, the
  clock and two storage back ends. The embedding makes every such effect explicit:
  \<^item> the outside world is a record of oracles (\<open>world\<close>), indexed by the number of
    external calls made so far, so that two calls may get different answers;
  \<^item> the process state (\<open>state\<close>) carries the clock, the call counter, the two
    module-level dictionaries of \<^verbatim>\<open>fetch_seed.py\<close> and the list of external
    effects performed so far (\<open>trace\<close>);
  \<^item> a Python exception is a value of type \<open>exn\<close>; a function that may raise
    returns \<open>'a attempt\<close>.
  Wall-clock times are Python floats; they are modelled as exact reals.
\<close>

subsection \<open>Python strings\<close>

text \<open>\<^verbatim>\<open>needle in hay\<close> for strings.\<close>

fun starts_with :: "string \<Rightarrow> string \<Rightarrow> bool" where
  "starts_with [] hay = True"
| "starts_with (n # ns) [] = False"
| "starts_with (n # ns) (h # hs) = (n = h \<and> starts_with ns hs)"

fun contains :: "string \<Rightarrow> string \<Rightarrow> bool" where
  "contains needle [] = (needle = [])"
| "contains needle (h # hs) = (starts_with needle (h # hs) \<or> contains needle hs)"

text \<open>\<^verbatim>\<open>s.split(sep)\<close> for a one-character separator: never returns the empty list.\<close>

fun split_on :: "char \<Rightarrow> string \<Rightarrow> string list" where
  "split_on sep [] = [[]]"
| "split_on sep (c # cs) =
     (if c = sep then [] # split_on sep cs
      else (case split_on sep cs of
              [] \<Rightarrow> [[c]]
            | w # ws \<Rightarrow> (c # w) # ws))"

text \<open>\<^verbatim>\<open>s.split(sep, 1)\<close> on a string that contains \<open>sep\<close>: the parts before and
  after its first occurrence.\<close>

fun split_once :: "char \<Rightarrow> string \<Rightarrow> string \<times> string" where
  "split_once sep [] = ([], [])"
| "split_once sep (c # cs) =
     (if c = sep then ([], cs)
      else (case split_once sep cs of (a, b) \<Rightarrow> (c # a, b)))"

text \<open>
  \<^verbatim>\<open>s.strip(chars)\<close> with an explicit set of characters. The methods whose
  result depends on the Unicode tables (\<^verbatim>\<open>str.lower()\<close>, \<^verbatim>\<open>str.strip()\<close>
  without argument, \<^verbatim>\<open>str.isalnum()\<close>) are parameters of the model: fields of
  \<open>config\<close> below.
\<close>

definition lstrip_chars :: "char set \<Rightarrow> string \<Rightarrow> string" where
  "lstrip_chars cs s = dropWhile (\<lambda>c. c \<in> cs) s"

definition rstrip_chars :: "char set \<Rightarrow> string \<Rightarrow> string" where
  "rstrip_chars cs s = rev (dropWhile (\<lambda>c. c \<in> cs) (rev s))"

definition strip_chars :: "char set \<Rightarrow> string \<Rightarrow> string" where
  "strip_chars cs s = rstrip_chars cs (lstrip_chars cs s)"

subsection \<open>Exceptions, JSON values, responses\<close>

datatype exn =
    RequestException
  | ValueError
  | TypeError
  | KeyError
  | AttributeError
  | OSError
  | AdlsError
  | DecodeError
  | OverflowError

datatype 'a attempt = Raises exn | Returns 'a

datatype jval =
    JStr string
  | JInt int
  | JBool bool
  | JNull
  | JArr "jval list"
  | JObj "(string \<times> jval) list"

text \<open>The value of a query parameter: \<^verbatim>\<open>requests\<close> takes strings and integers.\<close>

datatype pval = PStr string | PInt int

type_synonym params = "(string \<times> pval) list"

text \<open>
  A \<^verbatim>\<open>requests.Response\<close>. \<open>truthy\<close> is \<^verbatim>\<open>bool(resp)\<close>, which the library
  defines itself (as \<^verbatim>\<open>resp.ok\<close>); the model keeps it as a field and fixes no
  value for it. \<open>content\<close> is \<^verbatim>\<open>resp.content\<close>, which may raise while the body is
  read; \<open>json\<close> is \<^verbatim>\<open>resp.json()\<close>, which raises on a body that is not JSON;
  \<open>resp_text\<close> is \<^verbatim>\<open>resp.text\<close>.
\<close>

record response =
  status_code :: int
  headers :: "string \<rightharpoonup> string"
  truthy :: bool
  content :: "string attempt"
  resp_text :: string
  json :: "jval attempt"

datatype http_outcome = Responded response | RequestFailed string

text \<open>
  A \<^verbatim>\<open>robotparser.RobotFileParser\<close> after \<^verbatim>\<open>read()\<close>: \<open>can_fetch agent url\<close> and
  \<open>crawl_delay agent\<close>. The value of a crawl delay is a number or something
  \<^verbatim>\<open>float()\<close> rejects.
\<close>

datatype cdval = CdNum real | CdOther

record robots_parser =
  can_fetch :: "string \<Rightarrow> string \<Rightarrow> bool"
  crawl_delay :: "string \<Rightarrow> cdval option attempt"


subsection \<open>The world, the state and the trace of effects\<close>

datatype backend = Adls | Local

datatype payload = Bytes string | Text string | Json jval

datatype event =
    RobotsGet "string option"
  | Sleep real
  | NetGet string params real
  | Put backend string string payload
  | AdlsInit
  | FeedGet string

text \<open>
  \<open>RobotsGet d\<close>: one retrieval of \<^verbatim>\<open>https://{d}/robots.txt\<close>.
  \<open>Sleep x\<close>: one \<^verbatim>\<open>time.sleep(x)\<close>.
  \<open>NetGet url params t\<close>: one HTTP GET, issued at clock time \<open>t\<close>.
  \<open>Put b dir name p\<close>: one completed write of \<open>p\<close> to \<open>dir/name\<close> on back end \<open>b\<close>;
  a \<open>Json\<close> payload stands for the \<^verbatim>\<open>json.dumps\<close> text of that dictionary.
  \<open>AdlsInit\<close>: the \<^verbatim>\<open>create_file_system\<close> call of the \<^verbatim>\<open>ADLSWriter\<close> constructor.
  \<open>FeedGet url\<close>: the retrieval of a feed by \<^verbatim>\<open>feedparser.parse(url)\<close>.
\<close>

record world =
  robots_txt :: "nat \<Rightarrow> string option \<Rightarrow> robots_parser option"
  http_get :: "nat \<Rightarrow> string \<Rightarrow> params \<Rightarrow> http_outcome"
  uniform01 :: "nat \<Rightarrow> real"
  elapse :: "nat \<Rightarrow> real"
  adls_fails :: "nat \<Rightarrow> bool"
  local_fails :: "nat \<Rightarrow> bool"
  feed_entries :: "nat \<Rightarrow> string \<Rightarrow> (string \<rightharpoonup> string) list"
  sleep_max :: real

text \<open>
  \<open>robots_txt n d\<close>: the parser that \<^verbatim>\<open>rp.read()\<close> leaves at call \<open>n\<close>, or \<open>None\<close>
  when \<^verbatim>\<open>rp.read()\<close> raises (the host cannot be reached, the connection times
  out, the body cannot be decoded). An HTTP error status does not make
  \<^verbatim>\<open>rp.read()\<close> raise: see \<open>parser_after_http_error\<close> above.
  \<open>uniform01 n\<close>: the draw of \<^verbatim>\<open>random.uniform(0, 1)\<close>.
  \<open>elapse n\<close>: the wall-clock time that external call \<open>n\<close> takes (for a sleep: the
  time slept beyond the requested duration).
  \<open>feed_entries n url\<close>: the entries of the feed that \<^verbatim>\<open>feedparser.parse(url)\<close>
  returns, each a dictionary of the fields it has.
  \<open>sleep_max\<close>: the longest duration, in seconds, that \<^verbatim>\<open>time.sleep\<close> accepts on
  the platform (CPython converts the duration to a 64-bit count of nanoseconds).
\<close>

record state =
  now :: real
  tick :: nat
  domain_last_request :: "string option \<rightharpoonup> real"
  domain_crawl_delay :: "string option \<rightharpoonup> real"
  trace :: "event list"

text \<open>The environment variables and the library functions the scripts read.\<close>

record config =
  DEFAULT_CRAWL_DELAY :: real
  USER_AGENT :: string
  LOCAL_RAW_BASE :: string
  SAM_API_KEY :: "string option"
  AZURE_STORAGE_ACCOUNT_NAME :: "string option"
  ADLS_FILESYSTEM :: "string option"
  AZURE_SDK_AVAILABLE :: bool
  adls_init_fails :: bool
  urlparse :: "string \<Rightarrow> (string \<times> string) option"
  strftime_date :: "real \<Rightarrow> string"
  strftime_stamp :: "real \<Rightarrow> string"
  isoformat :: "real \<Rightarrow> string"
  sha256_hex :: "string \<Rightarrow> string"
  splitext_ext :: "string \<Rightarrow> string"
  parse_int :: "string \<Rightarrow> int option"
  str_int :: "int \<Rightarrow> string"
  lower :: "string \<Rightarrow> string"
  strip :: "string \<Rightarrow> string"
  isalnum :: "char \<Rightarrow> bool"

text \<open>
  \<open>urlparse url\<close> is \<open>Some (netloc, path)\<close>, or \<open>None\<close> when \<^verbatim>\<open>urllib\<close> raises.
  \<open>strftime_date\<close>, \<open>strftime_stamp\<close> and \<open>isoformat\<close> format \<^verbatim>\<open>datetime.utcnow()\<close>
  as \<^verbatim>\<open>%Y%m%d\<close>, \<^verbatim>\<open>%Y%m%dT%H%M%SZ\<close> and ISO-8601. \<open>sha256_hex\<close> is
  \<^verbatim>\<open>hashlib.sha256(b).hexdigest()\<close>, \<open>splitext_ext p\<close> is
  \<^verbatim>\<open>os.path.splitext(p)[1]\<close>, \<open>parse_int s\<close> is \<^verbatim>\<open>int(s)\<close> (\<open>None\<close>: it raises),
  \<open>str_int n\<close> is \<^verbatim>\<open>str(n)\<close>. \<open>lower s\<close> is \<^verbatim>\<open>s.lower()\<close>, \<open>strip s\<close> is
  \<^verbatim>\<open>s.strip()\<close> and \<open>isalnum c\<close> is \<^verbatim>\<open>c.isalnum()\<close> for a character \<open>c\<close>.
\<close>

definition tock :: "world \<Rightarrow> state \<Rightarrow> state" where
  "tock w s = s\<lparr>now := now s + elapse w (tick s), tick := Suc (tick s)\<rparr>"

definition emit :: "event \<Rightarrow> state \<Rightarrow> state" where
  "emit e s = s\<lparr>trace := trace s @ [e]\<rparr>"

text \<open>
  \<^verbatim>\<open>time.sleep(x)\<close>: raises \<^verbatim>\<open>ValueError\<close> on a negative duration and
  \<^verbatim>\<open>OverflowError\<close> on one beyond what the platform accepts.
\<close>

definition time_sleep :: "world \<Rightarrow> real \<Rightarrow> state \<Rightarrow> exn option \<times> state" where
  "time_sleep w x s =
     (if x < 0 then (Some ValueError, s)
      else if sleep_max w < x then (Some OverflowError, s)
      else (None, tock w ((emit (Sleep x) s)\<lparr>now := now s + x\<rparr>)))"

subsection \<open>\<^verbatim>\<open>fetch_seed.py\<close>: robots, rate limiter, polite fetch\<close>

definition get_domain :: "config \<Rightarrow> string \<Rightarrow> string option" where
  "get_domain cfg url =
     (case urlparse cfg url of
        None \<Rightarrow> None
      | Some (netloc, path) \<Rightarrow> Some (lower cfg netloc))"

definition get_robots_parser_for_domain ::
  "world \<Rightarrow> string option \<Rightarrow> state \<Rightarrow> robots_parser option \<times> state" where
  "get_robots_parser_for_domain w domain s =
     (robots_txt w (tick s) domain, tock w (emit (RobotsGet domain) s))"

definition wait_for_domain ::
  "config \<Rightarrow> world \<Rightarrow> string option \<Rightarrow> state \<Rightarrow> exn option \<times> state" where
  "wait_for_domain cfg w domain s =
     (let last = domain_last_request s domain;
          delay = (case domain_crawl_delay s domain of
                     None \<Rightarrow> DEFAULT_CRAWL_DELAY cfg
                   | Some d \<Rightarrow> d)
      in case last of
           None \<Rightarrow> (None, s)
         | Some l \<Rightarrow>
             if l = 0 then (None, s)
             else let elapsed = now s - l
                  in if elapsed < delay
                     then time_sleep w (delay - elapsed + uniform01 w (tick s)) s
                     else (None, s))"

definition robots_cd :: "config \<Rightarrow> robots_parser \<Rightarrow> cdval option" where
  "robots_cd cfg rp =
     (case crawl_delay rp (USER_AGENT cfg) of
        Raises e \<Rightarrow> None
      | Returns (Some c) \<Rightarrow> Some c
      | Returns None \<Rightarrow>
          (case crawl_delay rp ''*'' of
             Raises e \<Rightarrow> None
           | Returns c \<Rightarrow> c))"

definition record_domain_request ::
  "config \<Rightarrow> string option \<Rightarrow> robots_parser option \<Rightarrow> state \<Rightarrow> state" where
  "record_domain_request cfg domain robots_parser s =
     (let s1 = (case robots_parser of
                  None \<Rightarrow> s
                | Some rp \<Rightarrow>
                    (case robots_cd cfg rp of
                       None \<Rightarrow> s
                     | Some (CdNum x) \<Rightarrow>
                         s\<lparr>domain_crawl_delay := (domain_crawl_delay s)(domain \<mapsto> x)\<rparr>
                     | Some CdOther \<Rightarrow>
                         s\<lparr>domain_crawl_delay :=
                             (domain_crawl_delay s)(domain \<mapsto> DEFAULT_CRAWL_DELAY cfg)\<rparr>))
      in s1\<lparr>domain_last_request := (domain_last_request s1)(domain \<mapsto> now s1)\<rparr>)"

datatype fetch_result =
    SkippedByRobots
  | FetchError string
  | Fetched response

text \<open>\<^verbatim>\<open>if domain\<close>: neither \<^verbatim>\<open>None\<close> nor the empty string.\<close>

definition nonempty_domain :: "string option \<Rightarrow> bool" where
  "nonempty_domain d = (case d of None \<Rightarrow> False | Some x \<Rightarrow> x \<noteq> [])"

definition polite_fetch ::
  "config \<Rightarrow> world \<Rightarrow> string \<Rightarrow> state \<Rightarrow> fetch_result attempt \<times> state" where
  "polite_fetch cfg w url s =
     (let domain = get_domain cfg url;
          (rp, s1) = (if nonempty_domain domain
                      then get_robots_parser_for_domain w domain s
                      else (None, s))
      in if (case rp of None \<Rightarrow> False | Some p \<Rightarrow> \<not> can_fetch p (USER_AGENT cfg) url)
         then (Returns SkippedByRobots, s1)
         else (case wait_for_domain cfg w domain s1 of
                 (Some e, s2) \<Rightarrow> (Raises e, s2)
               | (None, s2) \<Rightarrow>
                   (let s3 = tock w (emit (NetGet url [] (now s2)) s2)
                    in case http_get w (tick s2) url [] of
                         Responded resp \<Rightarrow>
                           (Returns (Fetched resp), record_domain_request cfg domain rp s3)
                       | RequestFailed msg \<Rightarrow> (Returns (FetchError msg), s3))))"

subsection \<open>\<^verbatim>\<open>fetch_seed.py\<close>: storage\<close>

text \<open>
  \<^verbatim>\<open>ADLSWriter.upload_bytes\<close> and \<^verbatim>\<open>upload_text\<close>: the failure of
  \<^verbatim>\<open>create_directory\<close> is swallowed, the one of \<^verbatim>\<open>create_file\<close> or
  \<^verbatim>\<open>upload_data\<close> is raised. A write that raises leaves no \<open>Put\<close> in the trace.
\<close>

definition adls_upload ::
  "world \<Rightarrow> string \<Rightarrow> string \<Rightarrow> payload \<Rightarrow> state \<Rightarrow> exn option \<times> state" where
  "adls_upload w directory_path filename data s =
     (if adls_fails w (tick s) then (Some AdlsError, tock w s)
      else (None, tock w (emit (Put Adls directory_path filename data) s)))"

text \<open>\<^verbatim>\<open>save_local_bytes\<close> and \<^verbatim>\<open>save_local_text\<close>.\<close>

definition save_local ::
  "world \<Rightarrow> string \<Rightarrow> string \<Rightarrow> payload \<Rightarrow> state \<Rightarrow> exn option \<times> state" where
  "save_local w target_path filename data s =
     (if local_fails w (tick s) then (Some OSError, tock w s)
      else (None, tock w (emit (Put Local target_path filename data) s)))"

text \<open>\<^verbatim>\<open>os.path.join(a, b)\<close> for a relative \<open>b\<close>.\<close>

definition path_join :: "string \<Rightarrow> string \<Rightarrow> string" where
  "path_join a b =
     (if a = [] then b
      else if last a = CHR ''/'' then a @ b
      else a @ ''/'' @ b)"

definition build_output_paths :: "config \<Rightarrow> string \<Rightarrow> state \<Rightarrow> string" where
  "build_output_paths cfg source_name s =
     (let safe_name =
            strip_chars {CHR ''_'', CHR ''-''}
              (map (\<lambda>c. if isalnum cfg c \<or> c \<in> {CHR ''-'', CHR ''_''} then c else CHR ''_'')
                 source_name);
          date_part = strftime_date cfg (now s)
      in ''anduril/'' @ safe_name @ ''/'' @ date_part)"

text \<open>
  The two writes of one artifact, content then sidecar, on one back end: the second is
  not attempted when the first raises.
\<close>

definition put_pair ::
  "(string \<Rightarrow> payload \<Rightarrow> state \<Rightarrow> exn option \<times> state) \<Rightarrow>
   string \<Rightarrow> string \<Rightarrow> (string \<times> jval) list \<Rightarrow> state \<Rightarrow> exn option \<times> state" where
  "put_pair put filename data meta s =
     (case put filename (Bytes data) s of
        (Some e, s1) \<Rightarrow> (Some e, s1)
      | (None, s1) \<Rightarrow> put (filename @ ''.metadata.json'') (Json (JObj meta)) s1)"

subsection \<open>\<^verbatim>\<open>fetch_seed.py\<close>: the rows of the manifest\<close>

text \<open>A row of \<^verbatim>\<open>csv.DictReader\<close>: a missing column reads as \<^verbatim>\<open>None\<close>.\<close>

type_synonym row = "(string \<times> string option) list"

text \<open>\<^verbatim>\<open>row.get(k) or d\<close>.\<close>

definition get_or :: "row \<Rightarrow> string \<Rightarrow> string \<Rightarrow> string" where
  "get_or r k d =
     (case map_of r k of
        Some (Some v) \<Rightarrow> (if v = [] then d else v)
      | _ \<Rightarrow> d)"

definition manifest_meta :: "row \<Rightarrow> jval" where
  "manifest_meta r =
     JObj (map (\<lambda>(k, v). (k, case v of None \<Rightarrow> JNull | Some x \<Rightarrow> JStr x)) r)"

text \<open>\<^verbatim>\<open>d[k] = v\<close> on a Python dictionary, which keeps the order of insertion.\<close>

fun dict_set :: "'k \<Rightarrow> 'v \<Rightarrow> ('k \<times> 'v) list \<Rightarrow> ('k \<times> 'v) list" where
  "dict_set k v [] = [(k, v)]"
| "dict_set k v ((k', v') # kvs) =
     (if k' = k then (k, v) # kvs else (k', v') # dict_set k v kvs)"

text \<open>The loop over \<^verbatim>\<open>api_params.split("&")\<close> of both API branches.\<close>

definition parse_api_params :: "config \<Rightarrow> string \<Rightarrow> params" where
  "parse_api_params cfg api_params =
     fold (\<lambda>p ps. if CHR ''='' \<in> set p
                   then (case split_once CHR ''='' p of
                           (k, v) \<Rightarrow> dict_set (strip cfg k) (PStr (strip cfg v)) ps)
                   else ps)
       (split_on CHR ''&'' api_params) []"

definition has_key :: "'k \<Rightarrow> ('k \<times> 'v) list \<Rightarrow> bool" where
  "has_key k kvs = (k \<in> fst ` set kvs)"

text \<open>
  The body both API branches share after their dry-run gate, inside their
  \<^verbatim>\<open>try\<close>: one \<^verbatim>\<open>SESSION.get\<close>, then the two writes. \<open>True\<close> is the
  \<^verbatim>\<open>continue\<close> at the end of the branch; \<open>False\<close> is the \<^verbatim>\<open>except Exception\<close>,
  after which the row falls through to the code below the branch.
\<close>

definition api_get_and_store ::
  "config \<Rightarrow> world \<Rightarrow> bool \<Rightarrow> string \<Rightarrow> string \<Rightarrow> string \<Rightarrow> string \<Rightarrow> params \<Rightarrow>
   string \<Rightarrow> state \<Rightarrow> bool \<times> state" where
  "api_get_and_store cfg w adls_writer source_name notes outdir endpoint ps tag s =
     (let s1 = tock w (emit (NetGet endpoint ps (now s)) s)
      in case http_get w (tick s) endpoint ps of
           RequestFailed msg \<Rightarrow> (False, s1)
         | Responded resp \<Rightarrow>
             (case content resp of
                Raises e \<Rightarrow> (False, s1)
              | Returns data \<Rightarrow>
                  (let meta = [(''source_name'', JStr source_name),
                               (''url'', JStr endpoint),
                               (''fetched_at'', JStr (isoformat cfg (now s1))),
                               (''http_status'', JInt (status_code resp)),
                               (''notes'', JStr notes)];
                       filename = source_name @ tag @ strftime_stamp cfg (now s1) @ ''.json'';
                       put = (if adls_writer then adls_upload w outdir
                              else save_local w (path_join (LOCAL_RAW_BASE cfg) outdir))
                   in case put_pair put filename data meta s1 of
                        (Some e, s2) \<Rightarrow> (False, s2)
                      | (None, s2) \<Rightarrow> (True, s2))))"

definition usaspending_branch ::
  "config \<Rightarrow> world \<Rightarrow> bool \<Rightarrow> bool \<Rightarrow> string \<Rightarrow> string \<Rightarrow> string \<Rightarrow> string \<Rightarrow>
   state \<Rightarrow> bool \<times> state" where
  "usaspending_branch cfg w adls_writer dry_run source_name notes outdir api_params s =
     (let api_base = ''https://api.usaspending.gov/api/v2'';
          ps = (if api_params \<noteq> [] then parse_api_params cfg api_params else [])
      in if has_key ''recipient_id'' ps \<or> has_key ''recipient_unique_id'' ps
         then (let endpoint = api_base @ ''/recipient/awards/''
               in if dry_run then (True, s)
                  else api_get_and_store cfg w adls_writer source_name notes outdir
                         endpoint ps ''_usaspending_'' s)
         else (False, s))"

definition sam_branch ::
  "config \<Rightarrow> world \<Rightarrow> bool \<Rightarrow> bool \<Rightarrow> string \<Rightarrow> string \<Rightarrow> string \<Rightarrow> string \<Rightarrow>
   state \<Rightarrow> bool \<times> state" where
  "sam_branch cfg w adls_writer dry_run source_name notes outdir api_params s =
     (case SAM_API_KEY cfg of
        None \<Rightarrow> (False, s)
      | Some sam_key \<Rightarrow>
          if sam_key = [] then (False, s)
          else (let endpoint = ''https://api.sam.gov/prod/opportunities/v2/search'';
                    ps = dict_set ''api_key'' (PStr sam_key) (parse_api_params cfg api_params)
                in if dry_run then (True, s)
                   else api_get_and_store cfg w adls_writer source_name notes outdir
                          endpoint ps ''_sam_'' s))"

text \<open>
  The commit of a generic fetch: with an ADLS writer, any exception of the two uploads
  is caught and both files are written locally instead; a local write that raises is
  not caught.
\<close>

definition commit_generic ::
  "config \<Rightarrow> world \<Rightarrow> bool \<Rightarrow> string \<Rightarrow> string \<Rightarrow> string \<Rightarrow> (string \<times> jval) list \<Rightarrow>
   state \<Rightarrow> exn option \<times> state" where
  "commit_generic cfg w adls_writer outdir filename_ts data meta s =
     (let local_dir = path_join (LOCAL_RAW_BASE cfg) outdir
      in if adls_writer
         then (case put_pair (adls_upload w outdir) filename_ts data meta s of
                 (None, s1) \<Rightarrow> (None, s1)
               | (Some e, s1) \<Rightarrow> put_pair (save_local w local_dir) filename_ts data meta s1)
         else put_pair (save_local w local_dir) filename_ts data meta s)"

text \<open>\<^verbatim>\<open>int(x)\<close> on a float: truncation towards zero.\<close>

definition int_of_float :: "real \<Rightarrow> int" where
  "int_of_float x = (if 0 \<le> x then \<lfloor>x\<rfloor> else \<lceil>x\<rceil>)"

text \<open>The back-off after the commit, when the status is 429.\<close>

definition backoff_429 :: "config \<Rightarrow> world \<Rightarrow> response \<Rightarrow> state \<Rightarrow> exn option \<times> state" where
  "backoff_429 cfg w resp s =
     (if status_code resp = 429
      then (case (case headers resp ''Retry-After'' of
                    None \<Rightarrow> Some (int_of_float (DEFAULT_CRAWL_DELAY cfg))
                  | Some v \<Rightarrow> parse_int cfg v) of
              None \<Rightarrow> (Some ValueError, s)
            | Some backoff \<Rightarrow> time_sleep w (real_of_int backoff + uniform01 w (tick s)) s)
      else (None, s))"

text \<open>The file name of a generic fetch, from the URL's path and the content type.\<close>

definition basename_of :: "string \<Rightarrow> string" where
  "basename_of path =
     (let b = last (split_on CHR ''/'' (rstrip_chars {CHR ''/''} path));
          basename = (if b = [] then ''index'' else b)
      in if CHR ''.'' \<notin> set basename then basename @ ''.html'' else basename)"

definition ext_of :: "config \<Rightarrow> string \<Rightarrow> string \<Rightarrow> string" where
  "ext_of cfg content_type basename =
     (if contains ''pdf'' content_type then ''.pdf''
      else if contains ''html'' content_type \<or> contains ''text'' content_type then ''.html''
      else (let e = splitext_ext cfg basename in if e = [] then ''.bin'' else e))"

text \<open>
  The generic path of one row, from \<^verbatim>\<open>if not url\<close> to the end of the loop body.
  The result is the exception that leaves the loop body, if any.
\<close>

definition generic_fetch ::
  "config \<Rightarrow> world \<Rightarrow> bool \<Rightarrow> bool \<Rightarrow> row \<Rightarrow> string \<Rightarrow> string \<Rightarrow> string \<Rightarrow> string \<Rightarrow>
   string \<Rightarrow> state \<Rightarrow> exn option \<times> state" where
  "generic_fetch cfg w adls_writer dry_run r source_name url notes outdir basename s =
     (if url = [] then (None, s)
      else
        (case get_robots_parser_for_domain w (get_domain cfg url) s of
           (rp, s1) \<Rightarrow>
             if (case rp of None \<Rightarrow> False | Some p \<Rightarrow> \<not> can_fetch p (USER_AGENT cfg) url)
             then (let meta = [(''source_name'', JStr source_name),
                               (''url'', JStr url),
                               (''fetched_at'', JStr (isoformat cfg (now s1))),
                               (''skipped_by_robots'', JBool True),
                               (''notes'', JStr notes)];
                       filename = source_name @ ''_robots_skip_''
                                    @ strftime_stamp cfg (now s1) @ ''.json''
                   in if adls_writer then adls_upload w outdir filename (Json (JObj meta)) s1
                      else save_local w (path_join (LOCAL_RAW_BASE cfg) outdir)
                             filename (Json (JObj meta)) s1)
             else if dry_run then (None, s1)
             else
               (case polite_fetch cfg w url s1 of
                  (Raises e, s2) \<Rightarrow> (Some e, s2)
                | (Returns SkippedByRobots, s2) \<Rightarrow> (None, s2)
                | (Returns (FetchError msg), s2) \<Rightarrow> (None, s2)
                | (Returns (Fetched resp), s2) \<Rightarrow>
                    if \<not> truthy resp then (None, s2)
                    else
                      (case content resp of
                         Raises e \<Rightarrow> (None, s2)
                       | Returns data \<Rightarrow>
                           (let content_type =
                                  lower cfg (case headers resp ''Content-Type'' of
                                           None \<Rightarrow> [] | Some v \<Rightarrow> v);
                                ext = ext_of cfg content_type basename;
                                filename_ts = rstrip_chars {CHR ''.''} basename @ ''_''
                                                @ strftime_stamp cfg (now s2) @ ext;
                                checksum = sha256_hex cfg data;
                                meta = [(''source_name'', JStr source_name),
                                        (''url'', JStr url),
                                        (''fetched_at'', JStr (isoformat cfg (now s2))),
                                        (''http_status'', JInt (status_code resp)),
                                        (''content_type'', JStr content_type),
                                        (''content_length'', JInt (int (length data))),
                                        (''etag'', (case headers resp ''ETag'' of
                                                     None \<Rightarrow> JNull | Some v \<Rightarrow> JStr v)),
                                        (''checksum_sha256'', JStr checksum),
                                        (''notes'', JStr notes),
                                        (''manifest_row'', manifest_meta r)]
                            in case commit_generic cfg w adls_writer outdir filename_ts
                                      data meta s2 of
                                 (Some e, s3) \<Rightarrow> (Some e, s3)
                               | (None, s3) \<Rightarrow> backoff_429 cfg w resp s3)))))"

text \<open>One iteration of the loop \<^verbatim>\<open>for row in rows\<close> of \<^verbatim>\<open>main\<close>.\<close>

definition process_row ::
  "config \<Rightarrow> world \<Rightarrow> bool \<Rightarrow> bool \<Rightarrow> row \<Rightarrow> state \<Rightarrow> exn option \<times> state" where
  "process_row cfg w adls_writer dry_run r s =
     (let source_name = get_or r ''source_name'' (get_or r ''source'' ''unnamed'');
          url = get_or r ''url'' [];
          api_params = get_or r ''api_endpoint_or_params'' [];
          notes = get_or r ''notes'' [];
          outdir = build_output_paths cfg source_name s
      in case urlparse cfg url of
           None \<Rightarrow> (Some ValueError, s)
         | Some (netloc, path) \<Rightarrow>
             (let basename = basename_of path;
                  (done1, s1) =
                     (if contains ''usaspending'' (lower cfg url)
                         \<or> contains ''usaspending'' (lower cfg api_params)
                      then usaspending_branch cfg w adls_writer dry_run source_name notes
                             outdir api_params s
                      else (False, s))
              in if done1 then (None, s1)
                 else
                   (let (done2, s2) =
                          (if contains ''sam.gov'' (lower cfg url)
                              \<or> (contains ''sam'' (lower cfg api_params)
                                  \<and> (case SAM_API_KEY cfg of
                                        None \<Rightarrow> False | Some k \<Rightarrow> k \<noteq> []))
                           then sam_branch cfg w adls_writer dry_run source_name notes
                                  outdir api_params s1
                           else (False, s1))
                    in if done2 then (None, s2)
                       else generic_fetch cfg w adls_writer dry_run r source_name url notes
                              outdir basename s2)))"

fun main_loop ::
  "config \<Rightarrow> world \<Rightarrow> bool \<Rightarrow> bool \<Rightarrow> row list \<Rightarrow> state \<Rightarrow> exn option \<times> state" where
  "main_loop cfg w adls_writer dry_run [] s = (None, s)"
| "main_loop cfg w adls_writer dry_run (r # rows) s =
     (case process_row cfg w adls_writer dry_run r s of
        (Some e, s1) \<Rightarrow> (Some e, s1)
      | (None, s1) \<Rightarrow> main_loop cfg w adls_writer dry_run rows s1)"

text \<open>\<^verbatim>\<open>if x\<close> on an optional environment variable.\<close>

definition env_set :: "string option \<Rightarrow> bool" where
  "env_set v = (case v of None \<Rightarrow> False | Some x \<Rightarrow> x \<noteq> [])"

text \<open>
  \<^verbatim>\<open>main\<close>, after \<^verbatim>\<open>load_manifest\<close> has returned \<open>rows\<close>: the ADLS writer is set up
  when the account, the file system and the SDK are there and \<^verbatim>\<open>local_only\<close> is
  off; a constructor that raises leaves \<^verbatim>\<open>adls_writer = None\<close>.
\<close>

definition main :: "config \<Rightarrow> world \<Rightarrow> row list \<Rightarrow> bool \<Rightarrow> bool \<Rightarrow> state \<Rightarrow> exn option \<times> state" where
  "main cfg w rows dry_run local_only s =
     (if env_set (AZURE_STORAGE_ACCOUNT_NAME cfg) \<and> env_set (ADLS_FILESYSTEM cfg)
         \<and> AZURE_SDK_AVAILABLE cfg \<and> \<not> local_only
      then (if adls_init_fails cfg then main_loop cfg w False dry_run rows s
            else main_loop cfg w True dry_run rows (tock w (emit AdlsInit s)))
      else main_loop cfg w False dry_run rows s)"

text \<open>The state at the start of a run: both dictionaries empty, nothing done yet.\<close>

definition init_state :: "real \<Rightarrow> state" where
  "init_state t0 =
     \<lparr>now = t0, tick = 0, domain_last_request = Map.empty,
      domain_crawl_delay = Map.empty, trace = []\<rparr>"

subsection \<open>\<^verbatim>\<open>usaspending_fetch.py\<close>\<close>

text \<open>\<^verbatim>\<open>len(v)\<close> (\<open>None\<close>: \<^verbatim>\<open>TypeError\<close>) and \<^verbatim>\<open>bool(v)\<close> of a decoded JSON value.\<close>

fun py_len :: "jval \<Rightarrow> nat option" where
  "py_len (JStr x) = Some (length x)"
| "py_len (JArr xs) = Some (length xs)"
| "py_len (JObj kvs) = Some (length kvs)"
| "py_len (JInt n) = None"
| "py_len (JBool b) = None"
| "py_len JNull = None"

fun py_truthy :: "jval \<Rightarrow> bool" where
  "py_truthy (JStr x) = (x \<noteq> [])"
| "py_truthy (JArr xs) = (xs \<noteq> [])"
| "py_truthy (JObj kvs) = (kvs \<noteq> [])"
| "py_truthy (JInt n) = (n \<noteq> 0)"
| "py_truthy (JBool b) = b"
| "py_truthy JNull = False"

definition ends_with :: "string \<Rightarrow> string \<Rightarrow> bool" where
  "ends_with suffix x = starts_with (rev suffix) (rev x)"

definition usaspending_params :: "string \<Rightarrow> int \<Rightarrow> int \<Rightarrow> params" where
  "usaspending_params recipient_id pagesize page =
     (let suffixed = ends_with ''-C'' recipient_id \<or> ends_with ''-P'' recipient_id;
          rlevel = (if suffixed then [last recipient_id] else ''C'');
          rid = (if suffixed then butlast (butlast recipient_id) else recipient_id)
      in [(''recipient_id'', PStr rid), (''recipient_level'', PStr rlevel),
          (''limit'', PInt pagesize), (''page'', PInt page)])"

text \<open>
  The loop \<^verbatim>\<open>while True\<close>, from the page number in \<^verbatim>\<open>params["page"]\<close>. The loop
  has no bound of its own, so the function is partial: \<open>None\<close> is a run that never
  leaves the loop, \<open>Some (e, s)\<close> a run that leaves it, by an exception when
  \<open>e \<noteq> None\<close>.
\<close>

partial_function (option) usaspending_pages ::
  "config \<Rightarrow> world \<Rightarrow> string \<Rightarrow> int \<Rightarrow> real \<Rightarrow> int \<Rightarrow> state \<Rightarrow> (exn option \<times> state) option"
where
  "usaspending_pages cfg w recipient_id pagesize sleep_s page s =
     (case http_get w (tick s) ''https://api.usaspending.gov/api/v2/recipient/awards/''
             (usaspending_params recipient_id pagesize page) of
        RequestFailed msg \<Rightarrow>
          Some (Some RequestException,
                tock w (emit (NetGet ''https://api.usaspending.gov/api/v2/recipient/awards/''
                                (usaspending_params recipient_id pagesize page) (now s)) s))
      | Responded r \<Rightarrow>
          (case tock w (emit (NetGet ''https://api.usaspending.gov/api/v2/recipient/awards/''
                                (usaspending_params recipient_id pagesize page) (now s)) s) of
             s1 \<Rightarrow>
               if status_code r \<noteq> 200 then Some (None, s1)
               else
                 (case json r of
                    Raises e \<Rightarrow> Some (Some e, s1)
                  | Returns payload \<Rightarrow>
                      (case adls_upload w (''anduril/USAspending/'' @ recipient_id)
                              (''usaspending_'' @ recipient_id @ ''_page'' @ str_int cfg page
                                 @ ''_'' @ strftime_stamp cfg (now s1) @ ''.json'')
                              (Json payload) s1 of
                         (Some e, s2) \<Rightarrow> Some (Some e, s2)
                       | (None, s2) \<Rightarrow>
                           (case payload of
                              JObj kvs \<Rightarrow>
                                (case (case map_of kvs ''results'' of
                                         None \<Rightarrow> Some 0
                                       | Some v \<Rightarrow> py_len v) of
                                   None \<Rightarrow> Some (Some TypeError, s2)
                                 | Some hits \<Rightarrow>
                                     if \<not> (case map_of kvs ''results'' of
                                              None \<Rightarrow> False
                                            | Some v \<Rightarrow> py_truthy v)
                                     then Some (None, s2)
                                     else
                                       (case time_sleep w sleep_s s2 of
                                          (Some e, s3) \<Rightarrow> Some (Some e, s3)
                                        | (None, s3) \<Rightarrow>
                                            usaspending_pages cfg w recipient_id pagesize
                                              sleep_s (page + 1) s3))
                            | _ \<Rightarrow> Some (Some AttributeError, s2))))))"

definition fetch_usaspending_for_recipient ::
  "config \<Rightarrow> world \<Rightarrow> string \<Rightarrow> int \<Rightarrow> real \<Rightarrow> state \<Rightarrow> (exn option \<times> state) option" where
  "fetch_usaspending_for_recipient cfg w recipient_id pagesize sleep_s s =
     (case AZURE_STORAGE_ACCOUNT_NAME cfg of
        None \<Rightarrow> Some (Some KeyError, s)
      | Some account \<Rightarrow> usaspending_pages cfg w recipient_id pagesize sleep_s 1 s)"

subsection \<open>\<^verbatim>\<open>news_fetch.py\<close>\<close>

text \<open>\<^verbatim>\<open>xs[:n]\<close>: a negative \<open>n\<close> counts from the end.\<close>

definition py_take :: "int \<Rightarrow> 'a list \<Rightarrow> 'a list" where
  "py_take n xs = (if 0 \<le> n then take (nat n) xs else take (length xs - nat (- n)) xs)"

definition safe_title_of :: "(string \<rightharpoonup> string) \<Rightarrow> string" where
  "safe_title_of entry =
     take 140
       (map (\<lambda>c. if c = CHR '' '' then CHR ''_'' else c)
          (map (\<lambda>c. if c = CHR ''/'' then CHR ''_'' else c)
             (case entry ''title'' of None \<Rightarrow> ''untitled'' | Some x \<Rightarrow> x)))"

definition jopt :: "string option \<Rightarrow> jval" where
  "jopt v = (case v of None \<Rightarrow> JNull | Some x \<Rightarrow> JStr x)"

text \<open>
  The body of the loop over the entries. The write of the feed item is outside the
  \<^verbatim>\<open>try\<close>; the fetch of the article and the write of its HTML are inside. An entry
  with no \<^verbatim>\<open>link\<close> raises \<^verbatim>\<open>AttributeError\<close> in the \<^verbatim>\<open>try\<close> and again in the
  handler's \<^verbatim>\<open>logging.warning(..., entry.link, e)\<close>, which nothing catches.
\<close>

definition store_entry ::
  "config \<Rightarrow> world \<Rightarrow> string \<Rightarrow> (string \<rightharpoonup> string) \<Rightarrow> state \<Rightarrow> exn option \<times> state" where
  "store_entry cfg w source_name entry s =
     (let ts = strftime_stamp cfg (now s);
          safe_title = safe_title_of entry;
          filename = safe_title @ ''_'' @ ts @ ''.json'';
          item = JObj [(''title'', jopt (entry ''title'')),
                       (''link'', jopt (entry ''link'')),
                       (''published'', jopt (entry ''published'')),
                       (''summary'', jopt (entry ''summary''))]
      in case adls_upload w (''anduril/news/'' @ source_name @ ''/rss'') filename (Json item) s of
           (Some e, s1) \<Rightarrow> (Some e, s1)
         | (None, s1) \<Rightarrow>
             (case entry ''link'' of
                None \<Rightarrow> (Some AttributeError, s1)
              | Some link \<Rightarrow>
                  (let s2 = tock w (emit (NetGet link [] (now s1)) s1);
                       s3 = (case http_get w (tick s1) link [] of
                               RequestFailed msg \<Rightarrow> s2
                             | Responded r \<Rightarrow>
                                 if status_code r = 200 \<and> length (resp_text r) > 200
                                 then snd (adls_upload w
                                             (''anduril/news/'' @ source_name @ ''/html'')
                                             (safe_title @ ''_'' @ ts @ ''.html'')
                                             (Text (resp_text r)) s2)
                                 else s2)
                   in time_sleep w (2 / 10) s3)))"

fun store_entries ::
  "config \<Rightarrow> world \<Rightarrow> string \<Rightarrow> (string \<rightharpoonup> string) list \<Rightarrow> state \<Rightarrow> exn option \<times> state" where
  "store_entries cfg w source_name [] s = (None, s)"
| "store_entries cfg w source_name (entry # entries) s =
     (case store_entry cfg w source_name entry s of
        (Some e, s1) \<Rightarrow> (Some e, s1)
      | (None, s1) \<Rightarrow> store_entries cfg w source_name entries s1)"

definition fetch_rss_and_store ::
  "config \<Rightarrow> world \<Rightarrow> string \<Rightarrow> string \<Rightarrow> int \<Rightarrow> state \<Rightarrow> exn option \<times> state" where
  "fetch_rss_and_store cfg w url source_name max_items s =
     (case AZURE_STORAGE_ACCOUNT_NAME cfg of
        None \<Rightarrow> (Some KeyError, s)
      | Some account \<Rightarrow>
          store_entries cfg w source_name
            (py_take max_items (feed_entries w (tick s) url))
            (tock w (emit (FeedGet url) s)))"

section \<open>Vocabulary of the properties\<close>

text \<open>The effects a call added to the trace.\<close>

definition new_events :: "state \<Rightarrow> state \<Rightarrow> event list" where
  "new_events s s' = drop (length (trace s)) (trace s')"

fun is_sleep :: "event \<Rightarrow> bool" where
  "is_sleep (Sleep x) = True"
| "is_sleep e = False"

fun is_put :: "event \<Rightarrow> bool" where
  "is_put (Put b dir name p) = True"
| "is_put e = False"

fun is_net_get :: "event \<Rightarrow> bool" where
  "is_net_get (NetGet u ps t) = True"
| "is_net_get e = False"

fun is_robots_get :: "event \<Rightarrow> bool" where
  "is_robots_get (RobotsGet d) = True"
| "is_robots_get e = False"

text \<open>The number of retrievals of the \<^verbatim>\<open>robots.txt\<close> of one domain.\<close>

definition robots_gets :: "string option \<Rightarrow> event list \<Rightarrow> nat" where
  "robots_gets d evs = length (filter (\<lambda>e. e = RobotsGet d) evs)"

text \<open>The delay \<^verbatim>\<open>wait_for_domain\<close> reads for a domain.\<close>

definition delay_of :: "config \<Rightarrow> state \<Rightarrow> string option \<Rightarrow> real" where
  "delay_of cfg s d =
     (case domain_crawl_delay s d of None \<Rightarrow> DEFAULT_CRAWL_DELAY cfg | Some x \<Rightarrow> x)"

subsection \<open>A concrete configuration and concrete worlds\<close>

definition url0 :: string where
  "url0 = ''https://example.com/report.pdf''"

text \<open>
  A stand-in for \<^verbatim>\<open>urllib.parse.urlparse\<close> that is enough for the URLs used below:
  after \<^verbatim>\<open>https://\<close>, the host up to the first slash, then the path.
\<close>

definition urlparse0 :: "string \<Rightarrow> (string \<times> string) option" where
  "urlparse0 u =
     (if starts_with ''https://'' u
      then Some (takeWhile (\<lambda>c. c \<noteq> CHR ''/'') (drop 8 u),
                 dropWhile (\<lambda>c. c \<noteq> CHR ''/'') (drop 8 u))
      else Some ([], u))"

text \<open>
  Stand-ins for \<^verbatim>\<open>str.lower()\<close>, \<^verbatim>\<open>str.strip()\<close> and \<^verbatim>\<open>str.isalnum()\<close> that
  agree with Python on ASCII strings, which is all the concrete runs below use.
\<close>

definition ascii_lower_char :: "char \<Rightarrow> char" where
  "ascii_lower_char c =
     (case map_of (zip ''ABCDEFGHIJKLMNOPQRSTUVWXYZ'' ''abcdefghijklmnopqrstuvwxyz'') c of
        None \<Rightarrow> c
      | Some l \<Rightarrow> l)"

definition ascii_lower :: "string \<Rightarrow> string" where
  "ascii_lower s = map ascii_lower_char s"

definition ascii_whitespace :: "char set" where
  "ascii_whitespace = {CHR '' '', CHR 0x09, CHR 0x0A, CHR 0x0B, CHR 0x0C, CHR 0x0D,
                       CHR 0x1C, CHR 0x1D, CHR 0x1E, CHR 0x1F}"

definition ascii_strip :: "string \<Rightarrow> string" where
  "ascii_strip s = strip_chars ascii_whitespace s"

definition ascii_isalnum :: "char \<Rightarrow> bool" where
  "ascii_isalnum c \<longleftrightarrow>
     c \<in> set ''abcdefghijklmnopqrstuvwxyzABCDEFGHIJKLMNOPQRSTUVWXYZ0123456789''"

definition cfg0 :: config where
  "cfg0 = \<lparr>DEFAULT_CRAWL_DELAY = 5, USER_AGENT = ''anduril-corpus-bot/0.1'',
           LOCAL_RAW_BASE = ''data/raw/anduril'', SAM_API_KEY = None,
           AZURE_STORAGE_ACCOUNT_NAME = Some ''acct'', ADLS_FILESYSTEM = Some ''raw'',
           AZURE_SDK_AVAILABLE = True, adls_init_fails = False,
           urlparse = urlparse0,
           strftime_date = (\<lambda>t. ''20240101''),
           strftime_stamp = (\<lambda>t. ''20240101T000000Z''),
           isoformat = (\<lambda>t. ''2024-01-01T00:00:00''),
           sha256_hex = (\<lambda>b. ''sha256:'' @ b),
           splitext_ext = (\<lambda>p. ''.pdf''),
           parse_int = (\<lambda>x. None),
           str_int = (\<lambda>n. if n = 1 then ''1'' else if n = 2 then ''2'' else ''n''),
           lower = ascii_lower, strip = ascii_strip, isalnum = ascii_isalnum\<rparr>"

definition rp_allow :: robots_parser where
  "rp_allow = \<lparr>can_fetch = (\<lambda>agent url. True), crawl_delay = (\<lambda>agent. Returns None)\<rparr>"

definition rp_deny :: robots_parser where
  "rp_deny = \<lparr>can_fetch = (\<lambda>agent url. False), crawl_delay = (\<lambda>agent. Returns None)\<rparr>"

definition rp_delay10 :: robots_parser where
  "rp_delay10 = \<lparr>can_fetch = (\<lambda>agent url. True),
                 crawl_delay = (\<lambda>agent. Returns (Some (CdNum 10)))\<rparr>"

definition resp_pdf :: response where
  "resp_pdf = \<lparr>status_code = 200, headers = [''Content-Type'' \<mapsto> ''application/pdf''],
               truthy = True, content = Returns ''%PDF-1.4'', resp_text = ''%PDF-1.4'',
               json = Raises DecodeError\<rparr>"

text \<open>
  A world where every \<^verbatim>\<open>robots.txt\<close> allows everything, every GET answers
  \<open>resp_pdf\<close>, no write fails, every external call takes one second and
  \<^verbatim>\<open>time.sleep\<close> accepts up to 9223372036 seconds (\<open>2 ^ 63\<close> nanoseconds).
\<close>

definition world0 :: world where
  "world0 = \<lparr>robots_txt = (\<lambda>n d. Some rp_allow),
             http_get = (\<lambda>n u ps. Responded resp_pdf),
             uniform01 = (\<lambda>n. 1 / 2),
             elapse = (\<lambda>n. 1),
             adls_fails = (\<lambda>n. False),
             local_fails = (\<lambda>n. False),
             feed_entries = (\<lambda>n u. []),
             sleep_max = 9223372036\<rparr>"

definition row0 :: row where
  "row0 = [(''source_name'', Some ''acme''), (''url'', Some url0)]"

text \<open>
  The times at which the GETs to one domain were issued, in order, and whether each
  two consecutive ones are at least \<open>delay\<close> apart.
\<close>

definition request_times :: "config \<Rightarrow> string option \<Rightarrow> event list \<Rightarrow> real list" where
  "request_times cfg d evs =
     concat (map (\<lambda>e. case e of
                         NetGet u ps t \<Rightarrow> (if get_domain cfg u = d then [t] else [])
                       | _ \<Rightarrow> []) evs)"

fun spaced :: "real \<Rightarrow> real list \<Rightarrow> bool" where
  "spaced delay [] = True"
| "spaced delay [t] = True"
| "spaced delay (t # t' # ts) = (t + delay \<le> t' \<and> spaced delay (t' # ts))"


text \<open>As \<open>world0\<close>, but every \<^verbatim>\<open>robots.txt\<close> declares a crawl delay of 10.\<close>

definition world_delay10 :: world where
  "world_delay10 = world0\<lparr>robots_txt := (\<lambda>n d. Some rp_delay10)\<rparr>"


text \<open>As \<open>world0\<close>, but every ADLS write raises.\<close>

definition world_adls_down :: world where
  "world_adls_down = world0\<lparr>adls_fails := (\<lambda>n. True)\<rparr>"

text \<open>As \<open>world_adls_down\<close>, and every \<^verbatim>\<open>robots.txt\<close> disallows everything.\<close>

definition world_deny_adls_down :: world where
  "world_deny_adls_down =
     world0\<lparr>robots_txt := (\<lambda>n d. Some rp_deny), adls_fails := (\<lambda>n. True)\<rparr>"

text \<open>The trace of \<open>s'\<close> continues the trace of \<open>s\<close>.\<close>

definition extends :: "state \<Rightarrow> state \<Rightarrow> bool" where
  "extends s s' \<longleftrightarrow> (\<exists>evs. trace s' = trace s @ evs)"

text \<open>The trace of \<open>s'\<close> continues the trace of \<open>s\<close> by events that satisfy \<open>P\<close>.\<close>

definition added :: "(event \<Rightarrow> bool) \<Rightarrow> state \<Rightarrow> state \<Rightarrow> bool" where
  "added P s s' \<longleftrightarrow> (\<exists>evs. trace s' = trace s @ evs \<and> list_all P evs)"

text \<open>
  Every GET of a trace comes after a retrieval of the \<^verbatim>\<open>robots.txt\<close> of its domain
  (\<open>seen\<close> holds the events before the ones still to check).
\<close>

fun robots_checked :: "config \<Rightarrow> event list \<Rightarrow> event list \<Rightarrow> bool" where
  "robots_checked cfg seen [] = True"
| "robots_checked cfg seen (NetGet u ps t # es) =
     (RobotsGet (get_domain cfg u) \<in> set seen \<and> robots_checked cfg (NetGet u ps t # seen) es)"
| "robots_checked cfg seen (e # es) = robots_checked cfg (e # seen) es"

text \<open>The number of completed writes.\<close>

definition puts :: "event list \<Rightarrow> nat" where
  "puts evs = length (filter is_put evs)"

text \<open>
  The result list of a page of the awards API as the loop of
  \<^verbatim>\<open>usaspending_fetch.py\<close> sees it: status 200 and a JSON object whose
  \<^verbatim>\<open>"results"\<close> is a list.
\<close>

definition page_items :: "response \<Rightarrow> jval list option" where
  "page_items r =
     (if status_code r = 200
      then (case json r of
              Returns (JObj kvs) \<Rightarrow>
                (case map_of kvs ''results'' of Some (JArr xs) \<Rightarrow> Some xs | _ \<Rightarrow> None)
            | _ \<Rightarrow> None)
      else None)"

abbreviation (input) awards_url :: string where
  "awards_url \<equiv> ''https://api.usaspending.gov/api/v2/recipient/awards/''"

text \<open>As \<open>world0\<close>, but every \<^verbatim>\<open>robots.txt\<close> disallows everything.\<close>

definition world_deny :: world where
  "world_deny = world0\<lparr>robots_txt := (\<lambda>n d. Some rp_deny)\<rparr>"

text \<open>A row that \<^verbatim>\<open>main\<close> sends to its USAspending branch.\<close>

definition row_usa :: row where
  "row_usa = [(''source_name'', Some ''usa''),
              (''url'', Some ''https://www.usaspending.gov/recipient/abc''),
              (''api_endpoint_or_params'', Some ''recipient_id=abc-C'')]"

text \<open>
  A stub of the awards API with one non-empty page followed by empty pages: page 1
  holds one result, every other page none.
\<close>

definition page_resp :: "jval list \<Rightarrow> response" where
  "page_resp items =
     \<lparr>status_code = 200, headers = Map.empty, truthy = True, content = Returns [],
      resp_text = [], json = Returns (JObj [(''results'', JArr items)])\<rparr>"

definition world_one_page :: world where
  "world_one_page =
     world0\<lparr>http_get := (\<lambda>n u ps. Responded
                (page_resp (if map_of ps ''page'' = Some (PInt 1) then [JStr ''award''] else [])))\<rparr>"

text \<open>The completed writes of a state, in order.\<close>

definition put_log :: "state \<Rightarrow> event list" where
  "put_log s = filter is_put (trace s)"





text \<open>The dictionary \<^verbatim>\<open>item\<close> that \<^verbatim>\<open>fetch_rss_and_store\<close> writes for an entry.\<close>

definition item_of :: "(string \<rightharpoonup> string) \<Rightarrow> jval" where
  "item_of entry =
     JObj [(''title'', jopt (entry ''title'')),
           (''link'', jopt (entry ''link'')),
           (''published'', jopt (entry ''published'')),
           (''summary'', jopt (entry ''summary''))]"

text \<open>The JSON values and the texts written, in order.\<close>

definition json_puts :: "event list \<Rightarrow> jval list" where
  "json_puts evs = concat (map (\<lambda>e. case e of Put b d f (Json j) \<Rightarrow> [j] | _ \<Rightarrow> []) evs)"

definition text_puts :: "event list \<Rightarrow> string list" where
  "text_puts evs = concat (map (\<lambda>e. case e of Put b d f (Text x) \<Rightarrow> [x] | _ \<Rightarrow> []) evs)"

text \<open>A feed of three entries, whose articles are 201 characters long.\<close>

definition entry1 :: "string \<rightharpoonup> string" where
  "entry1 = [''title'' \<mapsto> ''First item'', ''link'' \<mapsto> ''https://example.com/a'']"

definition entry2 :: "string \<rightharpoonup> string" where
  "entry2 = [''title'' \<mapsto> ''Second item'', ''link'' \<mapsto> ''https://example.com/b'']"

definition entry3 :: "string \<rightharpoonup> string" where
  "entry3 = [''title'' \<mapsto> ''Third item'', ''link'' \<mapsto> ''https://example.com/c'']"

definition resp_html :: response where
  "resp_html = resp_pdf\<lparr>headers := [''Content-Type'' \<mapsto> ''text/html''],
                        resp_text := replicate 201 (CHR ''x'')\<rparr>"

definition world_feed :: world where
  "world_feed = world0\<lparr>feed_entries := (\<lambda>n u. [entry1, entry2, entry3]),
                       http_get := (\<lambda>n u ps. Responded resp_html)\<rparr>"



text \<open>As \<open>world0\<close>, but every \<^verbatim>\<open>robots.txt\<close> declares a crawl delay of \<open>10 ^ 10\<close> seconds.\<close>

definition world_delay_huge :: world where
  "world_delay_huge =
     world0\<lparr>robots_txt := (\<lambda>n d. Some \<lparr>can_fetch = (\<lambda>agent url. True),
                                          crawl_delay = (\<lambda>agent. Returns (Some (CdNum 10000000000)))\<rparr>)\<rparr>"

text \<open>The back end and the file name of each write of a list of events, in order.\<close>

definition put_names :: "event list \<Rightarrow> (backend \<times> string) list" where
  "put_names evs = concat (map (\<lambda>e. case e of Put b d f p \<Rightarrow> [(b, f)] | _ \<Rightarrow> []) evs)"

text \<open>
  The GETs (URL and parameters) and the sleeps (duration) of a list of events, in the
  order in which they happened; and what a loop over the pages \<open>p\<close> to \<open>q\<close> of the awards
  API does: a GET for each page, with a sleep of \<open>sl\<close> after each but the last.
\<close>

datatype move = Get string params | Pause real

definition moves :: "event list \<Rightarrow> move list" where
  "moves evs =
     concat (map (\<lambda>e. case e of NetGet u ps t \<Rightarrow> [Get u ps] | Sleep x \<Rightarrow> [Pause x] | _ \<Rightarrow> []) evs)"

definition paged_moves :: "string \<Rightarrow> int \<Rightarrow> real \<Rightarrow> int \<Rightarrow> int \<Rightarrow> move list" where
  "paged_moves rid psz sl p q =
     concat (map (\<lambda>n. [Get awards_url (usaspending_params rid psz n), Pause sl]) [p..q - 1])
     @ [Get awards_url (usaspending_params rid psz q)]"

text \<open>A stub of the awards API with two non-empty pages: the pages 1 and 2.\<close>

definition world_two_pages :: world where
  "world_two_pages =
     world0\<lparr>http_get := (\<lambda>n u ps. Responded
                (page_resp (if map_of ps ''page'' = Some (PInt 1) \<or> map_of ps ''page'' = Some (PInt 2)
                            then [JStr ''award''] else [])))\<rparr>"

text \<open>
  \<open>article_of w entry n\<close>: the text that the GET of the \<^verbatim>\<open>link\<close> of \<open>entry\<close>, issued as
  call \<open>n\<close>, returns, when its status is 200 and it is longer than 200 characters;
  \<open>None\<close> when the entry has no link, the GET fails, or the response is another one.
  \<open>html_ok w entry html\<close>: \<open>html\<close> is nothing, or such a text of that entry.
  \<open>bodies_of\<close>: the texts of a list of optional texts.
\<close>

definition article_of :: "world \<Rightarrow> (string \<rightharpoonup> string) \<Rightarrow> nat \<Rightarrow> string option" where
  "article_of w entry n =
     (case entry ''link'' of
        None \<Rightarrow> None
      | Some link \<Rightarrow>
          (case http_get w n link [] of
             RequestFailed msg \<Rightarrow> None
           | Responded r \<Rightarrow>
               if status_code r = 200 \<and> length (resp_text r) > 200
               then Some (resp_text r) else None))"

definition html_ok :: "world \<Rightarrow> (string \<rightharpoonup> string) \<Rightarrow> string option \<Rightarrow> bool" where
  "html_ok w entry html =
     (case html of None \<Rightarrow> True | Some body \<Rightarrow> (\<exists>n. article_of w entry n = Some body))"

definition bodies_of :: "string option list \<Rightarrow> string list" where
  "bodies_of htmls = concat (map (\<lambda>h. case h of None \<Rightarrow> [] | Some body \<Rightarrow> [body]) htmls)"

section \<open>Basic facts\<close>

lemma tock_simps [simp]:
  "trace (tock w s) = trace s"
  "domain_last_request (tock w s) = domain_last_request s"
  "domain_crawl_delay (tock w s) = domain_crawl_delay s"
  "tick (tock w s) = Suc (tick s)"
  "now (tock w s) = now s + elapse w (tick s)"
  by (simp_all add: tock_def)

lemma emit_simps [simp]:
  "trace (emit e s) = trace s @ [e]"
  "domain_last_request (emit e s) = domain_last_request s"
  "domain_crawl_delay (emit e s) = domain_crawl_delay s"
  "tick (emit e s) = tick s"
  "now (emit e s) = now s"
  by (simp_all add: emit_def)

lemmas eval_defs =
  main_def process_row_def generic_fetch_def polite_fetch_def commit_generic_def put_pair_def
  backoff_429_def wait_for_domain_def record_domain_request_def robots_cd_def
  get_robots_parser_for_domain_def save_local_def adls_upload_def time_sleep_def tock_def emit_def
  get_domain_def nonempty_domain_def build_output_paths_def basename_of_def ext_of_def
  get_or_def env_set_def manifest_meta_def path_join_def init_state_def
  usaspending_branch_def sam_branch_def api_get_and_store_def parse_api_params_def has_key_def
  ascii_lower_def ascii_lower_char_def ascii_strip_def strip_chars_def lstrip_chars_def
  rstrip_chars_def ascii_whitespace_def ascii_isalnum_def Let_def

lemmas world_defs =
  cfg0_def urlparse0_def world0_def row0_def url0_def rp_allow_def rp_deny_def rp_delay10_def resp_pdf_def

lemma get_domain_url0: "get_domain cfg0 url0 = Some ''example.com''"
  by (simp add: get_domain_def cfg0_def urlparse0_def url0_def ascii_lower_def ascii_lower_char_def)

subsection \<open>Retrievals of \<^verbatim>\<open>robots.txt\<close> are never added by the other steps\<close>

lemma robots_gets_simps [simp]:
  "robots_gets d [] = 0"
  "robots_gets d (xs @ ys) = robots_gets d xs + robots_gets d ys"
  "robots_gets d [RobotsGet d'] = (if d' = d then 1 else 0)"
  "robots_gets d [Sleep x] = 0"
  "robots_gets d [NetGet u ps t] = 0"
  "robots_gets d [Put b dir f p] = 0"
  by (simp_all add: robots_gets_def)

lemma rg_time_sleep [simp]:
  "robots_gets d (trace (snd (time_sleep w x s))) = robots_gets d (trace s)"
  by (simp add: time_sleep_def)

lemma rg_adls_upload [simp]:
  "robots_gets d (trace (snd (adls_upload w dir f p s))) = robots_gets d (trace s)"
  by (simp add: adls_upload_def)

lemma rg_save_local [simp]:
  "robots_gets d (trace (snd (save_local w dir f p s))) = robots_gets d (trace s)"
  by (simp add: save_local_def)

lemma rg_put_pair:
  assumes "\<And>f p s. robots_gets d (trace (snd (put f p s))) = robots_gets d (trace s)"
  shows "robots_gets d (trace (snd (put_pair put f c m s))) = robots_gets d (trace s)"
  using assms by (simp add: put_pair_def case_prod_beta split: option.splits)

lemma rg_commit_generic [simp]:
  "robots_gets d (trace (snd (commit_generic cfg w adls dir f c m s))) = robots_gets d (trace s)"
  by (simp add: commit_generic_def Let_def case_prod_beta rg_put_pair split: option.splits)

lemma rg_backoff [simp]:
  "robots_gets d (trace (snd (backoff_429 cfg w resp s))) = robots_gets d (trace s)"
  by (simp add: backoff_429_def split: option.splits)

lemma rg_wait [simp]:
  "robots_gets d (trace (snd (wait_for_domain cfg w dm s))) = robots_gets d (trace s)"
  by (simp add: wait_for_domain_def Let_def split: option.splits)

lemma rg_record [simp]:
  "robots_gets d (trace (record_domain_request cfg dm rp s)) = robots_gets d (trace s)"
  by (simp add: record_domain_request_def Let_def split: option.splits cdval.splits)

lemma rg_lookup [simp]:
  "robots_gets d (trace (snd (get_robots_parser_for_domain w dm s))) =
     robots_gets d (trace s) + (if dm = d then 1 else 0)"
  by (simp add: get_robots_parser_for_domain_def)

lemma rg_polite_fetch:
  "robots_gets d (trace (snd (polite_fetch cfg w url s))) =
     robots_gets d (trace s) +
       (if nonempty_domain (get_domain cfg url) \<and> get_domain cfg url = d then 1 else 0)"
  by (simp add: polite_fetch_def Let_def case_prod_beta
        split: option.splits http_outcome.splits)

lemma rg_generic:
  assumes "url \<noteq> []" "\<not> dry_run" "nonempty_domain (get_domain cfg url)"
    and "\<forall>p. robots_txt w (tick s) (get_domain cfg url) = Some p
             \<longrightarrow> can_fetch p (USER_AGENT cfg) url"
  shows "robots_gets (get_domain cfg url)
           (trace (snd (generic_fetch cfg w adls dry_run r src url nt outdir basename s))) =
         robots_gets (get_domain cfg url) (trace s) + 2"
proof -
  have rp: "fst (get_robots_parser_for_domain w (get_domain cfg url) s) =
              robots_txt w (tick s) (get_domain cfg url)"
    by (simp add: get_robots_parser_for_domain_def)
  show ?thesis
    using assms rp
    by (simp add: generic_fetch_def Let_def case_prod_beta rg_polite_fetch
        split: option.splits attempt.splits fetch_result.splits)
qed

section \<open>The claims\<close>

subsection \<open>C6: the robots policy is looked up again each time\<close>

text \<open>
  C6, as stated, says that the policy of a domain is resolved by at most one retrieval
  of \<^verbatim>\<open>robots.txt\<close> per run. The run of \<^verbatim>\<open>main\<close> on the single row
  \<open>row0\<close> retrieves the \<^verbatim>\<open>robots.txt\<close> of \<^verbatim>\<open>example.com\<close> twice: once for the
  check in \<^verbatim>\<open>main\<close>, once more in \<^verbatim>\<open>polite_fetch\<close>.
\<close>

theorem robots_cached_counterexample:
  "\<not> robots_gets (Some ''example.com'')
        (trace (snd (main cfg0 world0 [row0] False True (init_state 100)))) \<le> 1"
  by (simp add: eval_defs robots_gets_def world_defs)

text \<open>
  C6, amended: nothing is cached. \<^verbatim>\<open>get_robots_parser_for_domain\<close> retrieves
  \<^verbatim>\<open>robots.txt\<close> on every call, whatever was looked up before, and returns what
  that retrieval gives; a row on the generic path that passes the check of \<^verbatim>\<open>main\<close>
  outside a dry run retrieves the \<^verbatim>\<open>robots.txt\<close> of its domain exactly twice.
\<close>

theorem robots_looked_up_each_time:
  "fst (get_robots_parser_for_domain w d s) = robots_txt w (tick s) d \<and>
   new_events s (snd (get_robots_parser_for_domain w d s)) = [RobotsGet d] \<and>
   (url \<noteq> [] \<and> \<not> dry_run \<and> nonempty_domain (get_domain cfg url) \<and>
    (\<forall>p. robots_txt w (tick s) (get_domain cfg url) = Some p
          \<longrightarrow> can_fetch p (USER_AGENT cfg) url)
    \<longrightarrow> robots_gets (get_domain cfg url)
          (trace (snd (generic_fetch cfg w adls dry_run r src url nt outdir basename s))) =
        robots_gets (get_domain cfg url) (trace s) + 2)"
proof -
  have "fst (get_robots_parser_for_domain w d s) = robots_txt w (tick s) d"
    by (simp add: get_robots_parser_for_domain_def)
  moreover have "new_events s (snd (get_robots_parser_for_domain w d s)) = [RobotsGet d]"
    by (simp add: get_robots_parser_for_domain_def new_events_def)
  ultimately show ?thesis
    using rg_generic [of url dry_run cfg w s adls r src nt outdir basename] by blast
qed

theorem robots_looked_up_each_time_witness:
  "url0 \<noteq> [] \<and> nonempty_domain (get_domain cfg0 url0) \<and>
   robots_txt world0 (tick (init_state 100)) (get_domain cfg0 url0) = Some rp_allow \<and>
   can_fetch rp_allow (USER_AGENT cfg0) url0 \<and>
   robots_gets (get_domain cfg0 url0)
     (trace (snd (generic_fetch cfg0 world0 False False row0 ''acme'' url0 [] ''anduril/acme''
                    ''report.pdf'' (init_state 100)))) =
   robots_gets (get_domain cfg0 url0) (trace (init_state 100)) + 2"
proof -
  have h: "url0 \<noteq> [] \<and> \<not> False \<and> nonempty_domain (get_domain cfg0 url0) \<and>
      (\<forall>p. robots_txt world0 (tick (init_state 100)) (get_domain cfg0 url0) = Some p
          \<longrightarrow> can_fetch p (USER_AGENT cfg0) url0)"
    by (simp add: get_domain_url0 nonempty_domain_def world0_def rp_allow_def)
       (simp add: url0_def)
  have a: "robots_txt world0 (tick (init_state 100)) (get_domain cfg0 url0) = Some rp_allow"
    by (simp add: world0_def)
  have b: "can_fetch rp_allow (USER_AGENT cfg0) url0"
    by (simp add: rp_allow_def)
  from h a b
    robots_looked_up_each_time [where w = world0 and s = "init_state 100" and url = url0
      and dry_run = False and cfg = cfg0 and adls = False and r = row0 and src = "''acme''"
      and nt = "[]" and outdir = "''anduril/acme''" and basename = "''report.pdf''"]
  show ?thesis by blast
qed

subsection \<open>The steps of \<^verbatim>\<open>polite_fetch\<close>\<close>





lemma record_effect:
  "trace (record_domain_request cfg d rp s) = trace s"
  "now (record_domain_request cfg d rp s) = now s"
  "domain_last_request (record_domain_request cfg d rp s) = (domain_last_request s)(d \<mapsto> now s)"
  by (simp_all add: record_domain_request_def Let_def split: option.splits cdval.splits)






lemma wait_first: "domain_last_request s d = None \<Longrightarrow> wait_for_domain cfg w d s = (None, s)"
  by (simp add: wait_for_domain_def)

lemma dcd_lookup [simp]:
  "domain_crawl_delay (snd (get_robots_parser_for_domain w d s)) = domain_crawl_delay s"
  "domain_last_request (snd (get_robots_parser_for_domain w d s)) = domain_last_request s"
  by (simp_all add: get_robots_parser_for_domain_def)

lemma dcd_time_sleep [simp]:
  "domain_crawl_delay (snd (time_sleep w x s)) = domain_crawl_delay s"
  "domain_last_request (snd (time_sleep w x s)) = domain_last_request s"
  by (simp_all add: time_sleep_def)

lemma dcd_wait [simp]:
  "domain_crawl_delay (snd (wait_for_domain cfg w d s)) = domain_crawl_delay s"
  "domain_last_request (snd (wait_for_domain cfg w d s)) = domain_last_request s"
  by (simp_all add: wait_for_domain_def Let_def split: option.splits)

lemma polite_first_no_sleep:
  assumes "domain_last_request s (get_domain cfg url) = None"
  shows "list_all (\<lambda>e. \<not> is_sleep e) (new_events s (snd (polite_fetch cfg w url s)))"
proof -
  have "wait_for_domain cfg w (get_domain cfg url) s1 = (None, s1)"
    if "domain_last_request s1 = domain_last_request s" for s1
    using assms that by (simp add: wait_first)
  then show ?thesis
    by (simp add: polite_fetch_def Let_def new_events_def get_robots_parser_for_domain_def
        record_domain_request_def
        split: option.splits http_outcome.splits cdval.splits)
qed

lemma polite_delay_kept:
  assumes "\<forall>resp. fst (polite_fetch cfg w url s) \<noteq> Returns (Fetched resp)"
  shows "domain_crawl_delay (snd (polite_fetch cfg w url s)) = domain_crawl_delay s"
  using assms
  by (simp add: polite_fetch_def Let_def case_prod_beta
      split: option.splits http_outcome.splits if_splits)

lemma polite_delay_stored:
  assumes "fst (polite_fetch cfg w url s) = Returns (Fetched resp)"
    and "nonempty_domain (get_domain cfg url)"
    and "robots_txt w (tick s) (get_domain cfg url) = Some p"
    and "robots_cd cfg p = Some (CdNum x)"
  shows "domain_crawl_delay (snd (polite_fetch cfg w url s)) (get_domain cfg url) = Some x"
  using assms
  by (simp add: polite_fetch_def Let_def case_prod_beta record_domain_request_def
        get_robots_parser_for_domain_def
      split: option.splits http_outcome.splits if_splits)

subsection \<open>C1: the spacing of consecutive requests to a domain\<close>




subsection \<open>C9: the first request to a domain, and when a crawl delay takes effect\<close>

text \<open>
  C9: when no request to the domain is recorded, \<^verbatim>\<open>wait_for_domain\<close> returns at
  once and \<^verbatim>\<open>polite_fetch\<close> does not sleep. The stored delay of a domain is left
  alone by the robots lookup and by the wait, and by a \<^verbatim>\<open>polite_fetch\<close> that does
  not end in a response; a \<^verbatim>\<open>polite_fetch\<close> that ends in a response stores the
  delay that the \<^verbatim>\<open>robots.txt\<close> retrieved for it declares.
\<close>

theorem first_request_not_delayed:
  "(domain_last_request s (get_domain cfg url) = None \<longrightarrow>
      wait_for_domain cfg w (get_domain cfg url) s = (None, s) \<and>
      list_all (\<lambda>e. \<not> is_sleep e) (new_events s (snd (polite_fetch cfg w url s)))) \<and>
   domain_crawl_delay (snd (get_robots_parser_for_domain w d s)) = domain_crawl_delay s \<and>
   domain_crawl_delay (snd (wait_for_domain cfg w d s)) = domain_crawl_delay s \<and>
   ((\<forall>resp. fst (polite_fetch cfg w url s) \<noteq> Returns (Fetched resp)) \<longrightarrow>
      domain_crawl_delay (snd (polite_fetch cfg w url s)) = domain_crawl_delay s) \<and>
   (fst (polite_fetch cfg w url s) = Returns (Fetched resp) \<and>
    nonempty_domain (get_domain cfg url) \<and>
    robots_txt w (tick s) (get_domain cfg url) = Some p \<and> robots_cd cfg p = Some (CdNum x)
    \<longrightarrow> domain_crawl_delay (snd (polite_fetch cfg w url s)) (get_domain cfg url) = Some x)"
  using wait_first [of s "get_domain cfg url" cfg w] polite_first_no_sleep [of s cfg url w]
    polite_delay_kept [of cfg w url s] polite_delay_stored [of cfg w url s resp p x]
  by (simp only: dcd_lookup dcd_wait) blast

theorem first_request_not_delayed_witness:
  "domain_last_request (init_state 100) (get_domain cfg0 url0) = None \<and>
   delay_of cfg0 (init_state 100) (get_domain cfg0 url0) = 5 \<and>
   fst (polite_fetch cfg0 world_delay10 url0 (init_state 100)) = Returns (Fetched resp_pdf) \<and>
   nonempty_domain (get_domain cfg0 url0) \<and>
   robots_txt world_delay10 (tick (init_state 100)) (get_domain cfg0 url0) = Some rp_delay10 \<and>
   robots_cd cfg0 rp_delay10 = Some (CdNum 10) \<and>
   list_all (\<lambda>e. \<not> is_sleep e)
     (new_events (init_state 100) (snd (polite_fetch cfg0 world_delay10 url0 (init_state 100)))) \<and>
   domain_crawl_delay (snd (polite_fetch cfg0 world_delay10 url0 (init_state 100)))
     (get_domain cfg0 url0) = Some 10"
proof -
  have a: "domain_last_request (init_state 100) (get_domain cfg0 url0) = None"
    by (simp add: init_state_def)
  have b: "fst (polite_fetch cfg0 world_delay10 url0 (init_state 100)) = Returns (Fetched resp_pdf)"
    by (simp add: eval_defs world_defs world_delay10_def)
  have c: "nonempty_domain (get_domain cfg0 url0)"
    by (simp add: get_domain_url0 nonempty_domain_def)
  have d: "robots_txt world_delay10 (tick (init_state 100)) (get_domain cfg0 url0) = Some rp_delay10"
    by (simp add: world_delay10_def world0_def)
  have e: "robots_cd cfg0 rp_delay10 = Some (CdNum 10)"
    by (simp add: robots_cd_def rp_delay10_def)
  have f: "delay_of cfg0 (init_state 100) (get_domain cfg0 url0) = 5"
    by (simp add: delay_of_def init_state_def cfg0_def)
  from a b c d e f
    first_request_not_delayed [where s = "init_state 100" and cfg = cfg0 and url = url0
      and w = world_delay10 and resp = resp_pdf and p = rp_delay10 and x = 10]
  show ?thesis by blast
qed

subsection \<open>The stored crawl delays change only where a request is recorded\<close>

lemma dcd_adls_upload [simp]:
  "domain_crawl_delay (snd (adls_upload w dir f p s)) = domain_crawl_delay s"
  by (simp add: adls_upload_def)

lemma dcd_save_local [simp]:
  "domain_crawl_delay (snd (save_local w dir f p s)) = domain_crawl_delay s"
  by (simp add: save_local_def)

lemma dcd_put_pair:
  assumes "\<And>f p s. domain_crawl_delay (snd (put f p s)) = domain_crawl_delay s"
  shows "domain_crawl_delay (snd (put_pair put f c m s)) = domain_crawl_delay s"
  using assms by (simp add: put_pair_def case_prod_beta split: option.splits)

lemma dcd_commit_generic [simp]:
  "domain_crawl_delay (snd (commit_generic cfg w adls dir f c m s)) = domain_crawl_delay s"
  by (simp add: commit_generic_def Let_def case_prod_beta dcd_put_pair split: option.splits)

lemma dcd_backoff [simp]:
  "domain_crawl_delay (snd (backoff_429 cfg w resp s)) = domain_crawl_delay s"
  by (simp add: backoff_429_def split: option.splits)

lemma dcd_api_get_and_store [simp]:
  "domain_crawl_delay (snd (api_get_and_store cfg w adls src nt outdir ep ps tag s)) =
     domain_crawl_delay s"
  by (simp add: api_get_and_store_def Let_def case_prod_beta dcd_put_pair
      split: http_outcome.splits attempt.splits option.splits)

lemma dcd_usaspending_branch [simp]:
  "domain_crawl_delay (snd (usaspending_branch cfg w adls dry src nt outdir ap s)) =
     domain_crawl_delay s"
  by (simp add: usaspending_branch_def Let_def)

lemma dcd_sam_branch [simp]:
  "domain_crawl_delay (snd (sam_branch cfg w adls dry src nt outdir ap s)) =
     domain_crawl_delay s"
  by (simp add: sam_branch_def Let_def split: option.splits)

lemma dcd_record:
  "domain_crawl_delay (record_domain_request cfg d' rp s) d =
     (if d' = d \<and> rp \<noteq> None \<and> robots_cd cfg (the rp) \<noteq> None
      then domain_crawl_delay (record_domain_request cfg d' rp s) d
      else domain_crawl_delay s d)"
  by (simp add: record_domain_request_def Let_def split: option.splits cdval.splits)





subsection \<open>Every step only adds to the trace\<close>

lemma extends_refl [simp]: "extends s s"
  by (simp add: extends_def)

lemma extends_trans: "extends s s1 \<Longrightarrow> extends s1 s2 \<Longrightarrow> extends s s2"
  by (auto simp: extends_def)

lemma extends_tock [simp]: "extends s (tock w s') \<longleftrightarrow> extends s s'"
  by (simp add: extends_def)

lemma extends_emit [simp]: "extends s s' \<Longrightarrow> extends s (emit e s')"
  by (auto simp: extends_def)


lemma extends_time_sleep [simp]: "extends s (snd (time_sleep w x s))"
  by (simp add: time_sleep_def extends_def)

lemma extends_adls_upload [simp]: "extends s (snd (adls_upload w dir f p s))"
  by (simp add: adls_upload_def)

lemma extends_save_local [simp]: "extends s (snd (save_local w dir f p s))"
  by (simp add: save_local_def)




lemma extends_lookup [simp]: "extends s (snd (get_robots_parser_for_domain w d s))"
  by (simp add: get_robots_parser_for_domain_def)

lemma extends_wait [simp]: "extends s (snd (wait_for_domain cfg w d s))"
  by (simp add: wait_for_domain_def Let_def split: option.splits)

lemma extends_record [simp]: "extends s s' \<Longrightarrow> extends s (record_domain_request cfg d rp s')"
  by (simp add: extends_def record_effect)

lemma extends_polite_fetch [simp]: "extends s (snd (polite_fetch cfg w url s))"
proof -
  let ?d = "get_domain cfg url"
  have a: "extends s (snd (get_robots_parser_for_domain w ?d s))" by simp
  have b: "extends s1 (snd (wait_for_domain cfg w ?d s1))" for s1 by simp
  show ?thesis
    using a b extends_trans [OF a b]
    by (simp add: polite_fetch_def Let_def case_prod_beta split: option.splits http_outcome.splits)
qed


subsection \<open>C7: a \<^verbatim>\<open>robots.txt\<close> that cannot be retrieved\<close>










subsection \<open>C8: an error of a row that ends the run\<close>

text \<open>
  C8 says that no error of a row ends the run, and that on a remote storage failure
  the sink falls back to local storage. With an ADLS writer whose writes fail and a
  \<^verbatim>\<open>robots.txt\<close> that disallows the URL, the upload of the robots-skip record of the
  first row raises out of \<^verbatim>\<open>main\<close>: nothing is written locally and the second row
  is never looked at. With the same failing writer and a \<^verbatim>\<open>robots.txt\<close> that allows
  the URL, the commit of the fetched content does fall back: both rows are processed
  and their files are written locally. (A third run ends at its second row as well: a
  \<^verbatim>\<open>robots.txt\<close> that declares a crawl delay of \<open>10 ^ 10\<close> seconds makes the sleep of
  the rate limiter raise \<^verbatim>\<open>OverflowError\<close>.)
\<close>

theorem robots_skip_upload_ends_the_run:
  "fst (main cfg0 world_deny_adls_down [row0, row0] False False (init_state 100))
     = Some AdlsError \<and>
   trace (snd (main cfg0 world_deny_adls_down [row0, row0] False False (init_state 100))) =
     [AdlsInit, RobotsGet (Some ''example.com'')] \<and>
   fst (main cfg0 world_adls_down [row0, row0] False False (init_state 100)) = None \<and>
   put_names (trace (snd (main cfg0 world_adls_down [row0, row0] False False (init_state 100)))) =
     [(Local, ''report.pdf_20240101T000000Z.pdf''),
      (Local, ''report.pdf_20240101T000000Z.pdf.metadata.json''),
      (Local, ''report.pdf_20240101T000000Z.pdf''),
      (Local, ''report.pdf_20240101T000000Z.pdf.metadata.json'')] \<and>
   fst (main cfg0 world_delay_huge [row0, row0] False True (init_state 100)) = Some OverflowError"
  by (simp add: eval_defs world_defs world_deny_adls_down_def world_adls_down_def put_names_def
      world_delay_huge_def)

subsection \<open>C5: what a dry run does\<close>

text \<open>
  C5 says that a dry run performs no network request, \<^verbatim>\<open>robots.txt\<close> retrievals
  included, and no storage write. The dry-run gate of the generic path stands after the
  robots check: the dry run of \<^verbatim>\<open>main\<close> on the single row \<open>row0\<close>, in a world whose
  \<^verbatim>\<open>robots.txt\<close> disallows the URL, retrieves \<^verbatim>\<open>robots.txt\<close> and writes the
  robots-skip record.
\<close>

theorem dry_run_retrieves_robots_and_writes:
  "trace (snd (main cfg0 world_deny [row0] True True (init_state 100))) =
     [RobotsGet (Some ''example.com''),
      Put Local ''data/raw/anduril/anduril/acme/20240101''
        ''acme_robots_skip_20240101T000000Z.json''
        (Json (JObj [(''source_name'', JStr ''acme''),
                     (''url'', JStr ''https://example.com/report.pdf''),
                     (''fetched_at'', JStr ''2024-01-01T00:00:00''),
                     (''skipped_by_robots'', JBool True),
                     (''notes'', JStr [])]))]"
  by (simp add: eval_defs world_defs world_deny_def)

subsection \<open>Events added by the API branches\<close>

lemma added_refl [simp]: "added P s s"
  by (simp add: added_def)

lemma added_trans: "added P s s1 \<Longrightarrow> added P s1 s2 \<Longrightarrow> added P s s2"
  by (auto simp: added_def)

lemma added_tock [simp]: "added P s (tock w s') \<longleftrightarrow> added P s s'"
  by (simp add: added_def)

lemma added_emit: "added P s s' \<Longrightarrow> P e \<Longrightarrow> added P s (emit e s')"
  by (auto simp: added_def)

lemma added_new_events: "added P s s' \<Longrightarrow> list_all P (new_events s s')"
  by (auto simp: added_def new_events_def)

lemma added_adls_upload: "P (Put Adls dir f p) \<Longrightarrow> added P s (snd (adls_upload w dir f p s))"
  by (simp add: adls_upload_def added_emit)

lemma added_save_local: "P (Put Local dir f p) \<Longrightarrow> added P s (snd (save_local w dir f p s))"
  by (simp add: save_local_def added_emit)

lemma added_time_sleep: "P (Sleep x) \<Longrightarrow> added P s (snd (time_sleep w x s))"
  by (simp add: time_sleep_def added_def)

lemma added_put_pair:
  assumes "\<And>f p s. added P s (snd (put f p s))"
  shows "added P s (snd (put_pair put f c m s))"
proof (cases "fst (put f (Bytes c) s)")
  case None
  have "added P s (snd (put f (Bytes c) s))"
    using assms by simp
  moreover have "added P (snd (put f (Bytes c) s))
     (snd (put (f @ ''.metadata.json'') (Json (JObj m)) (snd (put f (Bytes c) s))))"
    using assms by simp
  ultimately show ?thesis
    using None by (simp add: put_pair_def case_prod_beta added_trans)
next
  case (Some e)
  then show ?thesis
    using assms by (simp add: put_pair_def case_prod_beta)
qed

lemma api_get_and_store_trace:
  "\<exists>evs. trace (snd (api_get_and_store cfg w adls src nt outdir ep ps tag s)) =
            trace s @ NetGet ep ps (now s) # evs \<and> list_all is_put evs"
proof -
  let ?s1 = "tock w (emit (NetGet ep ps (now s)) s)"
  have a: "added is_put s' (snd (put_pair (adls_upload w dir) f c m s'))" for s' dir f c m
    by (rule added_put_pair) (simp add: added_adls_upload)
  have b: "added is_put s' (snd (put_pair (save_local w dir) f c m s'))" for s' dir f c m
    by (rule added_put_pair) (simp add: added_save_local)
  have "added is_put ?s1 (snd (api_get_and_store cfg w adls src nt outdir ep ps tag s))"
    using a b
    by (simp add: api_get_and_store_def Let_def case_prod_beta
        split: http_outcome.splits attempt.splits option.splits)
  then show ?thesis
    by (auto simp: added_def)
qed

lemma api_get_and_store_events:
  "list_all (\<lambda>e. \<not> is_robots_get e \<and> \<not> is_sleep e)
     (new_events s (snd (api_get_and_store cfg w adls src nt outdir ep ps tag s))) \<and>
   length (filter is_net_get
     (new_events s (snd (api_get_and_store cfg w adls src nt outdir ep ps tag s)))) \<le> 1"
proof -
  obtain evs where e: "trace (snd (api_get_and_store cfg w adls src nt outdir ep ps tag s)) =
            trace s @ NetGet ep ps (now s) # evs" "list_all is_put evs"
    using api_get_and_store_trace by blast
  have "\<not> is_robots_get x \<and> \<not> is_sleep x \<and> \<not> is_net_get x" if "is_put x" for x
    using that by (cases x) simp_all
  then have "list_all (\<lambda>e. \<not> is_robots_get e \<and> \<not> is_sleep e) evs" "filter is_net_get evs = []"
    using e(2) by (auto simp: list_all_iff filter_empty_conv)
  then show ?thesis
    using e(1) by (simp add: new_events_def)
qed

lemma usaspending_branch_events:
  "list_all (\<lambda>e. \<not> is_robots_get e \<and> \<not> is_sleep e)
     (new_events s (snd (usaspending_branch cfg w adls dry src nt outdir ap s))) \<and>
   length (filter is_net_get
     (new_events s (snd (usaspending_branch cfg w adls dry src nt outdir ap s)))) \<le> 1"
  using api_get_and_store_events
  by (simp add: usaspending_branch_def Let_def new_events_def)

lemma sam_branch_events:
  "list_all (\<lambda>e. \<not> is_robots_get e \<and> \<not> is_sleep e)
     (new_events s (snd (sam_branch cfg w adls dry src nt outdir ap s))) \<and>
   length (filter is_net_get
     (new_events s (snd (sam_branch cfg w adls dry src nt outdir ap s)))) \<le> 1"
  using api_get_and_store_events
  by (simp add: sam_branch_def Let_def new_events_def split: option.splits)

lemma dlr_adls_upload [simp]:
  "domain_last_request (snd (adls_upload w dir f p s)) = domain_last_request s"
  by (simp add: adls_upload_def)

lemma dlr_save_local [simp]:
  "domain_last_request (snd (save_local w dir f p s)) = domain_last_request s"
  by (simp add: save_local_def)

lemma dlr_put_pair:
  assumes "\<And>f p s. domain_last_request (snd (put f p s)) = domain_last_request s"
  shows "domain_last_request (snd (put_pair put f c m s)) = domain_last_request s"
  using assms by (simp add: put_pair_def case_prod_beta split: option.splits)

lemma dlr_api_get_and_store [simp]:
  "domain_last_request (snd (api_get_and_store cfg w adls src nt outdir ep ps tag s)) =
     domain_last_request s"
  by (simp add: api_get_and_store_def Let_def case_prod_beta dlr_put_pair
      split: http_outcome.splits attempt.splits option.splits)

lemma dlr_usaspending_branch [simp]:
  "domain_last_request (snd (usaspending_branch cfg w adls dry src nt outdir ap s)) =
     domain_last_request s"
  by (simp add: usaspending_branch_def Let_def)

lemma dlr_sam_branch [simp]:
  "domain_last_request (snd (sam_branch cfg w adls dry src nt outdir ap s)) =
     domain_last_request s"
  by (simp add: sam_branch_def Let_def split: option.splits)

subsection \<open>C3: how many pages the paginated fetch commits\<close>

lemma puts_simps [simp]:
  "puts [] = 0"
  "puts (xs @ ys) = puts xs + puts ys"
  "puts (e # es) = (if is_put e then 1 else 0) + puts es"
  by (simp_all add: puts_def)

lemma page_itemsD:
  assumes "page_items r = Some xs"
  shows "status_code r = 200" and "\<exists>kvs. json r = Returns (JObj kvs) \<and> map_of kvs ''results'' = Some (JArr xs)"
  using assms
  by (auto simp: page_items_def split: if_splits attempt.splits jval.splits option.splits)

lemma pages_last:
  assumes "http_get w (tick s) awards_url (usaspending_params rid psz page) = Responded r"
    and "page_items r = Some []"
    and "\<not> adls_fails w (Suc (tick s))"
  shows "\<exists>s'. usaspending_pages cfg w rid psz sl page s = Some (None, s') \<and>
              puts (trace s') = puts (trace s) + 1"
proof -
  obtain kvs where k: "json r = Returns (JObj kvs)" "map_of kvs ''results'' = Some (JArr [])"
    using page_itemsD(2) [OF assms(2)] by blast
  show ?thesis
    using assms(1,3) page_itemsD(1) [OF assms(2)] k
    by (subst usaspending_pages.simps) (simp add: adls_upload_def)
qed

lemma pages_step:
  assumes "http_get w (tick s) awards_url (usaspending_params rid psz page) = Responded r"
    and "page_items r = Some xs" "xs \<noteq> []"
    and "\<not> adls_fails w (Suc (tick s))" "0 \<le> sl" "sl \<le> sleep_max w"
  shows "\<exists>s3. usaspending_pages cfg w rid psz sl page s =
                 usaspending_pages cfg w rid psz sl (page + 1) s3 \<and>
              puts (trace s3) = puts (trace s) + 1"
proof -
  obtain kvs where k: "json r = Returns (JObj kvs)" "map_of kvs ''results'' = Some (JArr xs)"
    using page_itemsD(2) [OF assms(2)] by blast
  show ?thesis
    using assms(1,3,4,5,6) page_itemsD(1) [OF assms(2)] k
    apply (subst usaspending_pages.simps)
    apply (simp add: adls_upload_def time_sleep_def)
    apply (rule exI, rule conjI, rule refl)
    apply simp
    done
qed

lemma pages_run:
  assumes h1: "\<forall>n p. 1 \<le> p \<and> p \<le> int N \<longrightarrow>
             (\<exists>r xs. http_get w n awards_url (usaspending_params rid psz p) = Responded r \<and>
                     page_items r = Some xs \<and> xs \<noteq> [])"
    and h2: "\<forall>n. \<exists>r. http_get w n awards_url (usaspending_params rid psz (int N + 1)) = Responded r \<and>
                     page_items r = Some []"
    and h3: "\<forall>n. \<not> adls_fails w n" and h4: "0 \<le> sl" and h5: "sl \<le> sleep_max w"
    and "k = nat (int N + 1 - page)" "1 \<le> page" "page \<le> int N + 1"
  shows "\<exists>s'. usaspending_pages cfg w rid psz sl page s = Some (None, s') \<and>
              puts (trace s') = puts (trace s) + k + 1"
  using assms(6-8)
proof (induction k arbitrary: page s)
  case 0
  then have p: "page = int N + 1" by simp
  obtain r where r: "http_get w (tick s) awards_url (usaspending_params rid psz (int N + 1)) = Responded r"
      "page_items r = Some []"
    using h2 by blast
  show ?case
    using pages_last [OF r(1) r(2), where cfg = cfg and sl = sl] h3 p by simp
next
  case (Suc k)
  then have p: "1 \<le> page" "page \<le> int N" by simp_all
  obtain r xs where r: "http_get w (tick s) awards_url (usaspending_params rid psz page) = Responded r"
      "page_items r = Some xs" "xs \<noteq> []"
    using h1 p by blast
  obtain s3 where s3: "usaspending_pages cfg w rid psz sl page s =
                 usaspending_pages cfg w rid psz sl (page + 1) s3"
      "puts (trace s3) = puts (trace s) + 1"
    using pages_step [OF r, where cfg = cfg and sl = sl] h3 h4 h5 by blast
  have "k = nat (int N + 1 - (page + 1))" "1 \<le> page + 1" "page + 1 \<le> int N + 1"
    using Suc.prems by simp_all
  from Suc.IH [OF this, of s3]
  show ?case
    using s3 by auto
qed

lemma pages_stop_on_status:
  assumes "http_get w (tick s) awards_url (usaspending_params rid psz page) = Responded r"
    and "status_code r \<noteq> 200"
  shows "\<exists>s'. usaspending_pages cfg w rid psz sl page s = Some (None, s') \<and>
              puts (trace s') = puts (trace s)"
  using assms
  by (subst usaspending_pages.simps) simp

text \<open>
  C3, as stated, says that against an API with N non-empty pages followed by an empty
  page the loop commits exactly N artifacts. Against the stub with one non-empty page
  the loop returns after two commits: the empty page is written before the loop looks
  at its result list. And the pause between two pages is \<^verbatim>\<open>time.sleep(sleep_s)\<close>,
  which nothing guards: against the stub with two non-empty pages, a \<^verbatim>\<open>sleep_s\<close> of
  \<open>10 ^ 10\<close> seconds ends the loop by \<^verbatim>\<open>OverflowError\<close> after one commit.
\<close>

theorem pagination_counterexample:
  "map_option fst (fetch_usaspending_for_recipient cfg0 world_one_page ''abc'' 50 (1 / 5)
                     (init_state 100)) = Some None \<and>
   map_option (puts \<circ> trace \<circ> snd)
     (fetch_usaspending_for_recipient cfg0 world_one_page ''abc'' 50 (1 / 5) (init_state 100))
     = Some 2 \<and>
   sleep_max world_two_pages < 10000000000 \<and>
   map_option fst (fetch_usaspending_for_recipient cfg0 world_two_pages ''abc'' 50 10000000000
                     (init_state 100)) = Some (Some OverflowError) \<and>
   map_option (puts \<circ> trace \<circ> snd)
     (fetch_usaspending_for_recipient cfg0 world_two_pages ''abc'' 50 10000000000
        (init_state 100)) = Some 1"
  by (simp add: fetch_usaspending_for_recipient_def usaspending_pages.simps usaspending_params_def
      ends_with_def puts_def
      eval_defs world_defs world_one_page_def world_two_pages_def page_resp_def)

text \<open>
  C3, amended: against an API that answers the pages 1 to N with non-empty result
  lists and page N + 1 with an empty one, with writes that succeed and a
  \<^verbatim>\<open>sleep_s\<close> that \<^verbatim>\<open>time.sleep\<close> accepts (not negative, not beyond the
  platform's bound), the paginated fetch returns, without an exception, after exactly
  N + 1 commits: the N non-empty pages and the empty page. On a response whose status is
  not 200 the loop returns at once and commits nothing for that page.
\<close>

theorem pagination_commits_every_page:
  assumes "AZURE_STORAGE_ACCOUNT_NAME cfg \<noteq> None"
    and "\<forall>n p. 1 \<le> p \<and> p \<le> int N \<longrightarrow>
             (\<exists>r xs. http_get w n awards_url (usaspending_params rid psz p) = Responded r \<and>
                     page_items r = Some xs \<and> xs \<noteq> [])"
    and "\<forall>n. \<exists>r. http_get w n awards_url (usaspending_params rid psz (int N + 1)) = Responded r \<and>
                     page_items r = Some []"
    and "\<forall>n. \<not> adls_fails w n" and "0 \<le> sl" and "sl \<le> sleep_max w"
  shows "(\<exists>s'. fetch_usaspending_for_recipient cfg w rid psz sl s = Some (None, s') \<and>
               puts (trace s') = puts (trace s) + N + 1) \<and>
         (\<forall>page s0 r. http_get w (tick s0) awards_url (usaspending_params rid psz page)
                         = Responded r \<and> status_code r \<noteq> 200 \<longrightarrow>
            (\<exists>s'. usaspending_pages cfg w rid psz sl page s0 = Some (None, s') \<and>
                  puts (trace s') = puts (trace s0)))"
proof -
  have "\<exists>s'. usaspending_pages cfg w rid psz sl 1 s = Some (None, s') \<and>
              puts (trace s') = puts (trace s) + nat (int N + 1 - 1) + 1"
    by (rule pages_run [OF assms(2-6) refl]) simp_all
  then have "\<exists>s'. fetch_usaspending_for_recipient cfg w rid psz sl s = Some (None, s') \<and>
               puts (trace s') = puts (trace s) + N + 1"
    using assms(1) by (auto simp: fetch_usaspending_for_recipient_def)
  then show ?thesis
    using pages_stop_on_status [where cfg = cfg and w = w and rid = rid and psz = psz and sl = sl]
    by blast
qed

theorem pagination_commits_every_page_witness:
  "AZURE_STORAGE_ACCOUNT_NAME cfg0 \<noteq> None \<and>
   (\<forall>n. http_get world_one_page n awards_url (usaspending_params ''abc'' 50 1)
          = Responded (page_resp [JStr ''award''])) \<and>
   page_items (page_resp [JStr ''award'']) = Some [JStr ''award''] \<and>
   (\<forall>n. http_get world_one_page n awards_url (usaspending_params ''abc'' 50 2)
          = Responded (page_resp [])) \<and>
   page_items (page_resp []) = Some [] \<and>
   (\<forall>n. \<not> adls_fails world_one_page n) \<and>
   (0::real) \<le> 1 / 5 \<and> 1 / 5 \<le> sleep_max world_one_page \<and>
   (\<exists>s'. fetch_usaspending_for_recipient cfg0 world_one_page ''abc'' 50 (1 / 5)
            (init_state 100) = Some (None, s') \<and>
         puts (trace s') = puts (trace (init_state 100)) + 1 + 1)"
proof -
  have a: "AZURE_STORAGE_ACCOUNT_NAME cfg0 \<noteq> None"
    by (simp add: cfg0_def)
  have b: "\<forall>n. http_get world_one_page n awards_url (usaspending_params ''abc'' 50 1)
          = Responded (page_resp [JStr ''award''])"
    "\<forall>n. http_get world_one_page n awards_url (usaspending_params ''abc'' 50 2)
          = Responded (page_resp [])"
    by (simp_all add: world_one_page_def usaspending_params_def ends_with_def)
  have c: "page_items (page_resp [JStr ''award'']) = Some [JStr ''award'']"
    "page_items (page_resp []) = Some []"
    by (simp_all add: page_items_def page_resp_def)
  have d: "\<forall>n. \<not> adls_fails world_one_page n"
    by (simp add: world_one_page_def world0_def)
  have h1: "\<forall>n p. 1 \<le> p \<and> p \<le> int 1 \<longrightarrow>
             (\<exists>r xs. http_get world_one_page n awards_url (usaspending_params ''abc'' 50 p)
                       = Responded r \<and> page_items r = Some xs \<and> xs \<noteq> [])"
  proof (intro allI impI)
    fix n :: nat and p :: int
    assume "1 \<le> p \<and> p \<le> int 1"
    then have "p = 1" by simp
    then show "\<exists>r xs. http_get world_one_page n awards_url (usaspending_params ''abc'' 50 p)
                       = Responded r \<and> page_items r = Some xs \<and> xs \<noteq> []"
      using b(1) c(1) by simp
  qed
  have h2: "\<forall>n. \<exists>r. http_get world_one_page n awards_url
                        (usaspending_params ''abc'' 50 (int 1 + 1)) = Responded r \<and>
                     page_items r = Some []"
    using b(2) c(2) by simp
  have h4: "(0::real) \<le> 1 / 5"
    by simp
  have h5: "1 / 5 \<le> sleep_max world_one_page"
    by (simp add: world_one_page_def world0_def)
  from pagination_commits_every_page [OF a h1 h2 d h4 h5, of "init_state 100"]
  show ?thesis
    using a b c d h4 h5 by simp
qed

subsection \<open>C2: the structured API requests\<close>

lemma moves_simps [simp]:
  "moves [] = []"
  "moves (xs @ ys) = moves xs @ moves ys"
  "moves (e # es) =
     (case e of NetGet u ps t \<Rightarrow> [Get u ps] | Sleep x \<Rightarrow> [Pause x] | _ \<Rightarrow> []) @ moves es"
  by (simp_all add: moves_def)

lemma paged_moves_last: "paged_moves rid psz sl p p = [Get awards_url (usaspending_params rid psz p)]"
  by (simp add: paged_moves_def)

lemma paged_moves_step:
  "p < q \<Longrightarrow> paged_moves rid psz sl p q =
     Get awards_url (usaspending_params rid psz p) # Pause sl # paged_moves rid psz sl (p + 1) q"
  by (simp add: paged_moves_def upto_rec1 [of p "q - 1"])

lemma pages_last_ev:
  assumes "http_get w (tick s) awards_url (usaspending_params rid psz page) = Responded r"
    and "page_items r = Some []"
    and "\<not> adls_fails w (Suc (tick s))"
  shows "\<exists>s' evs. usaspending_pages cfg w rid psz sl page s = Some (None, s') \<and>
              trace s' = trace s @ evs \<and>
              moves evs = [Get awards_url (usaspending_params rid psz page)]"
proof -
  obtain kvs where k: "json r = Returns (JObj kvs)" "map_of kvs ''results'' = Some (JArr [])"
    using page_itemsD(2) [OF assms(2)] by blast
  show ?thesis
    using assms(1,3) page_itemsD(1) [OF assms(2)] k
    by (subst usaspending_pages.simps) (simp add: adls_upload_def)
qed

lemma pages_step_ev:
  assumes "http_get w (tick s) awards_url (usaspending_params rid psz page) = Responded r"
    and "page_items r = Some xs" "xs \<noteq> []"
    and "\<not> adls_fails w (Suc (tick s))" "0 \<le> sl" "sl \<le> sleep_max w"
  shows "\<exists>s3 evs. usaspending_pages cfg w rid psz sl page s =
                 usaspending_pages cfg w rid psz sl (page + 1) s3 \<and>
              trace s3 = trace s @ evs \<and>
              moves evs = [Get awards_url (usaspending_params rid psz page), Pause sl]"
proof -
  obtain kvs where k: "json r = Returns (JObj kvs)" "map_of kvs ''results'' = Some (JArr xs)"
    using page_itemsD(2) [OF assms(2)] by blast
  show ?thesis
    using assms(1,3,4,5,6) page_itemsD(1) [OF assms(2)] k
    apply (subst usaspending_pages.simps)
    apply (simp add: adls_upload_def time_sleep_def)
    apply (rule exI, rule conjI, rule refl)
    apply simp
    done
qed

lemma pages_run_ev:
  assumes h1: "\<forall>n p. 1 \<le> p \<and> p \<le> int N \<longrightarrow>
             (\<exists>r xs. http_get w n awards_url (usaspending_params rid psz p) = Responded r \<and>
                     page_items r = Some xs \<and> xs \<noteq> [])"
    and h2: "\<forall>n. \<exists>r. http_get w n awards_url (usaspending_params rid psz (int N + 1)) = Responded r \<and>
                     page_items r = Some []"
    and h3: "\<forall>n. \<not> adls_fails w n" and h4: "0 \<le> sl" and h5: "sl \<le> sleep_max w"
    and "k = nat (int N + 1 - page)" "1 \<le> page" "page \<le> int N + 1"
  shows "\<exists>s' evs. usaspending_pages cfg w rid psz sl page s = Some (None, s') \<and>
              trace s' = trace s @ evs \<and>
              moves evs = paged_moves rid psz sl page (int N + 1)"
  using assms(6-8)
proof (induction k arbitrary: page s)
  case 0
  then have p: "page = int N + 1" by simp
  obtain r where r: "http_get w (tick s) awards_url (usaspending_params rid psz (int N + 1)) = Responded r"
      "page_items r = Some []"
    using h2 by blast
  show ?case
    using pages_last_ev [OF r(1) r(2), where cfg = cfg and sl = sl] h3 p
    by (simp add: paged_moves_last)
next
  case (Suc k)
  then have p: "1 \<le> page" "page \<le> int N" by simp_all
  obtain r xs where r: "http_get w (tick s) awards_url (usaspending_params rid psz page) = Responded r"
      "page_items r = Some xs" "xs \<noteq> []"
    using h1 p by blast
  have "\<exists>s3 evs. usaspending_pages cfg w rid psz sl page s =
                 usaspending_pages cfg w rid psz sl (page + 1) s3 \<and>
              trace s3 = trace s @ evs \<and>
              moves evs = [Get awards_url (usaspending_params rid psz page), Pause sl]"
    using pages_step_ev [OF r, where cfg = cfg and sl = sl] h3 h4 h5 by simp
  then obtain s3 ev1 where s3: "usaspending_pages cfg w rid psz sl page s =
                 usaspending_pages cfg w rid psz sl (page + 1) s3"
      "trace s3 = trace s @ ev1"
      "moves ev1 = [Get awards_url (usaspending_params rid psz page), Pause sl]"
    by (elim exE conjE)
  have "k = nat (int N + 1 - (page + 1))" "1 \<le> page + 1" "page + 1 \<le> int N + 1"
    using Suc.prems by simp_all
  from Suc.IH [OF this, of s3]
  obtain s' ev2 where s': "usaspending_pages cfg w rid psz sl (page + 1) s3 = Some (None, s')"
      "trace s' = trace s3 @ ev2"
      "moves ev2 = paged_moves rid psz sl (page + 1) (int N + 1)"
    by (elim exE conjE)
  have up: "paged_moves rid psz sl page (int N + 1) =
     Get awards_url (usaspending_params rid psz page) # Pause sl #
     paged_moves rid psz sl (page + 1) (int N + 1)"
    using p by (intro paged_moves_step) simp
  show ?case
  proof (intro exI conjI)
    show "usaspending_pages cfg w rid psz sl page s = Some (None, s')"
      using s3(1) s'(1) by simp
    show "trace s' = trace s @ (ev1 @ ev2)"
      using s3(2) s'(2) by simp
    show "moves (ev1 @ ev2) = paged_moves rid psz sl page (int N + 1)"
      using s3(3) s'(3) up by simp
  qed
qed

lemma branch_events:
  "list_all (\<lambda>e. \<not> is_sleep e)
     (new_events s (snd (usaspending_branch cfg w adls dry src nt outdir ap s)))"
  "list_all (\<lambda>e. \<not> is_sleep e)
     (new_events s (snd (sam_branch cfg w adls dry src nt outdir ap s)))"
  using usaspending_branch_events [of s cfg w adls dry src nt outdir ap]
    sam_branch_events [of s cfg w adls dry src nt outdir ap]
  by (simp_all add: list_all_iff)

lemma paged_run:
  assumes "AZURE_STORAGE_ACCOUNT_NAME cfg \<noteq> None"
    and "\<forall>n p. 1 \<le> p \<and> p \<le> int N \<longrightarrow>
             (\<exists>r xs. http_get w n awards_url (usaspending_params rid psz p) = Responded r \<and>
                     page_items r = Some xs \<and> xs \<noteq> [])"
    and "\<forall>n. \<exists>r. http_get w n awards_url (usaspending_params rid psz (int N + 1)) = Responded r \<and>
                     page_items r = Some []"
    and "\<forall>n. \<not> adls_fails w n" and "0 \<le> sl" and "sl \<le> sleep_max w"
  shows "\<exists>s'. fetch_usaspending_for_recipient cfg w rid psz sl s = Some (None, s') \<and>
            moves (new_events s s') = paged_moves rid psz sl 1 (int N + 1)"
proof -
  have "\<exists>s' evs. usaspending_pages cfg w rid psz sl 1 s = Some (None, s') \<and>
              trace s' = trace s @ evs \<and>
              moves evs = paged_moves rid psz sl 1 (int N + 1)"
    by (rule pages_run_ev [OF assms(2-6) refl]) simp_all
  then obtain s' evs where r: "usaspending_pages cfg w rid psz sl 1 s = Some (None, s')"
      "trace s' = trace s @ evs"
      "moves evs = paged_moves rid psz sl 1 (int N + 1)"
    by (elim exE conjE)
  have ne: "new_events s s' = evs"
    using r(2) by (simp add: new_events_def)
  obtain account where acc: "AZURE_STORAGE_ACCOUNT_NAME cfg = Some account"
    using assms(1) by (cases "AZURE_STORAGE_ACCOUNT_NAME cfg") simp_all
  show ?thesis
  proof (intro exI conjI)
    show "fetch_usaspending_for_recipient cfg w rid psz sl s = Some (None, s')"
      using r(1) acc by (simp add: fetch_usaspending_for_recipient_def)
    show "moves (new_events s s') = paged_moves rid psz sl 1 (int N + 1)"
      using r(3) ne by simp
  qed
qed

text \<open>
  C2, as stated, says that every request of a structured API strategy comes after the
  robots check and the rate-limit wait of the generic path, and that the strategy loops
  over pages. The run of \<^verbatim>\<open>main\<close> on a USAspending row issues its GET with no
  retrieval of \<^verbatim>\<open>robots.txt\<close> before it, and issues that one GET only although
  the response is accepted. On two such rows, the two GETs to the API are issued three
  seconds apart, under a delay of five.
\<close>

theorem api_request_counterexample:
  "\<not> robots_checked cfg0 []
        (trace (snd (main cfg0 world0 [row_usa] False True (init_state 100)))) \<and>
   length (filter is_net_get
             (trace (snd (main cfg0 world0 [row_usa] False True (init_state 100))))) = 1 \<and>
   request_times cfg0 (Some ''api.usaspending.gov'')
     (trace (snd (main cfg0 world0 [row_usa, row_usa] False True (init_state 100)))) =
     [100, 103] \<and>
   \<not> spaced (DEFAULT_CRAWL_DELAY cfg0)
       (request_times cfg0 (Some ''api.usaspending.gov'')
          (trace (snd (main cfg0 world0 [row_usa, row_usa] False True (init_state 100)))))"
  by (simp add: eval_defs world_defs row_usa_def split_on.simps request_times_def)

text \<open>
  C2, amended. The USAspending and the SAM.gov branch of \<^verbatim>\<open>main\<close> issue at most
  one GET per row, with no rate-limit wait: they never sleep and leave the stamps of
  the rate limiter as they were. \<^verbatim>\<open>fetch_usaspending_for_recipient\<close> does loop over
  successive pages: against an API that answers the pages 1 to N with non-empty result
  lists and page N + 1 with an empty one (writes succeeding, \<^verbatim>\<open>sleep_s\<close> a duration
  that \<^verbatim>\<open>time.sleep\<close> accepts) it returns after requesting the pages
  1, 2, ..., N + 1, in this order and each once, with one sleep of \<^verbatim>\<open>sleep_s\<close>
  between two consecutive requests and no other sleep.
\<close>

theorem structured_requests_single_or_paged:
  "list_all (\<lambda>e. \<not> is_sleep e)
     (new_events s (snd (usaspending_branch cfg w adls dry src nt outdir ap s))) \<and>
   length (filter is_net_get
     (new_events s (snd (usaspending_branch cfg w adls dry src nt outdir ap s)))) \<le> 1 \<and>
   domain_last_request (snd (usaspending_branch cfg w adls dry src nt outdir ap s)) =
     domain_last_request s \<and>
   list_all (\<lambda>e. \<not> is_sleep e)
     (new_events s (snd (sam_branch cfg w adls dry src nt outdir ap s))) \<and>
   length (filter is_net_get
     (new_events s (snd (sam_branch cfg w adls dry src nt outdir ap s)))) \<le> 1 \<and>
   domain_last_request (snd (sam_branch cfg w adls dry src nt outdir ap s)) =
     domain_last_request s \<and>
   (AZURE_STORAGE_ACCOUNT_NAME cfg \<noteq> None \<and>
    (\<forall>n p. 1 \<le> p \<and> p \<le> int N \<longrightarrow>
       (\<exists>r xs. http_get w n awards_url (usaspending_params rid psz p) = Responded r \<and>
               page_items r = Some xs \<and> xs \<noteq> [])) \<and>
    (\<forall>n. \<exists>r. http_get w n awards_url (usaspending_params rid psz (int N + 1)) = Responded r \<and>
              page_items r = Some []) \<and>
    (\<forall>n. \<not> adls_fails w n) \<and> 0 \<le> sl \<and> sl \<le> sleep_max w \<longrightarrow>
    (\<exists>s'. fetch_usaspending_for_recipient cfg w rid psz sl s = Some (None, s') \<and>
          moves (new_events s s') = paged_moves rid psz sl 1 (int N + 1)))"
proof -
  have u: "length (filter is_net_get
     (new_events s (snd (usaspending_branch cfg w adls dry src nt outdir ap s)))) \<le> 1"
    using usaspending_branch_events [of s cfg w adls dry src nt outdir ap] by (rule conjunct2)
  have m: "length (filter is_net_get
     (new_events s (snd (sam_branch cfg w adls dry src nt outdir ap s)))) \<le> 1"
    using sam_branch_events [of s cfg w adls dry src nt outdir ap] by (rule conjunct2)
  have p: "AZURE_STORAGE_ACCOUNT_NAME cfg \<noteq> None \<and>
    (\<forall>n p. 1 \<le> p \<and> p \<le> int N \<longrightarrow>
       (\<exists>r xs. http_get w n awards_url (usaspending_params rid psz p) = Responded r \<and>
               page_items r = Some xs \<and> xs \<noteq> [])) \<and>
    (\<forall>n. \<exists>r. http_get w n awards_url (usaspending_params rid psz (int N + 1)) = Responded r \<and>
              page_items r = Some []) \<and>
    (\<forall>n. \<not> adls_fails w n) \<and> 0 \<le> sl \<and> sl \<le> sleep_max w \<longrightarrow>
    (\<exists>s'. fetch_usaspending_for_recipient cfg w rid psz sl s = Some (None, s') \<and>
          moves (new_events s s') = paged_moves rid psz sl 1 (int N + 1))"
  proof
    assume h: "AZURE_STORAGE_ACCOUNT_NAME cfg \<noteq> None \<and>
    (\<forall>n p. 1 \<le> p \<and> p \<le> int N \<longrightarrow>
       (\<exists>r xs. http_get w n awards_url (usaspending_params rid psz p) = Responded r \<and>
               page_items r = Some xs \<and> xs \<noteq> [])) \<and>
    (\<forall>n. \<exists>r. http_get w n awards_url (usaspending_params rid psz (int N + 1)) = Responded r \<and>
              page_items r = Some []) \<and>
    (\<forall>n. \<not> adls_fails w n) \<and> 0 \<le> sl \<and> sl \<le> sleep_max w"
    show "\<exists>s'. fetch_usaspending_for_recipient cfg w rid psz sl s = Some (None, s') \<and>
          moves (new_events s s') = paged_moves rid psz sl 1 (int N + 1)"
      using h by (intro paged_run) (elim conjE, assumption)+
  qed
  show ?thesis
    using branch_events(1) [of s cfg w adls dry src nt outdir ap] u
      dlr_usaspending_branch [of cfg w adls dry src nt outdir ap s]
      branch_events(2) [of s cfg w adls dry src nt outdir ap] m
      dlr_sam_branch [of cfg w adls dry src nt outdir ap s] p
    by (intro conjI)
qed

theorem structured_requests_single_or_paged_witness:
  "new_events (init_state 100)
     (snd (usaspending_branch cfg0 world0 False False ''usa'' [] ''anduril/usa/20240101''
             ''recipient_id=abc-C'' (init_state 100))) \<noteq> [] \<and>
   list_all (\<lambda>e. \<not> is_sleep e)
     (new_events (init_state 100)
        (snd (usaspending_branch cfg0 world0 False False ''usa'' [] ''anduril/usa/20240101''
                ''recipient_id=abc-C'' (init_state 100)))) \<and>
   AZURE_STORAGE_ACCOUNT_NAME cfg0 \<noteq> None \<and>
   (\<forall>n. http_get world_one_page n awards_url (usaspending_params ''abc'' 50 1)
          = Responded (page_resp [JStr ''award''])) \<and>
   page_items (page_resp [JStr ''award'']) = Some [JStr ''award''] \<and>
   (\<forall>n. http_get world_one_page n awards_url (usaspending_params ''abc'' 50 2)
          = Responded (page_resp [])) \<and>
   page_items (page_resp []) = Some [] \<and>
   (\<forall>n. \<not> adls_fails world_one_page n) \<and>
   (0::real) \<le> 1 / 5 \<and> 1 / 5 \<le> sleep_max world_one_page \<and>
   (\<exists>s'. fetch_usaspending_for_recipient cfg0 world_one_page ''abc'' 50 (1 / 5)
            (init_state 100) = Some (None, s') \<and>
         moves (new_events (init_state 100) s') =
           [Get awards_url (usaspending_params ''abc'' 50 1), Pause (1 / 5),
            Get awards_url (usaspending_params ''abc'' 50 2)])"
proof -
  have z: "new_events (init_state 100)
     (snd (usaspending_branch cfg0 world0 False False ''usa'' [] ''anduril/usa/20240101''
             ''recipient_id=abc-C'' (init_state 100))) \<noteq> []"
    by (simp add: eval_defs world_defs new_events_def split_on.simps)
  have a: "AZURE_STORAGE_ACCOUNT_NAME cfg0 \<noteq> None"
    by (simp add: cfg0_def)
  have b: "\<forall>n. http_get world_one_page n awards_url (usaspending_params ''abc'' 50 1)
          = Responded (page_resp [JStr ''award''])"
    "\<forall>n. http_get world_one_page n awards_url (usaspending_params ''abc'' 50 2)
          = Responded (page_resp [])"
    by (simp_all add: world_one_page_def usaspending_params_def ends_with_def)
  have c: "page_items (page_resp [JStr ''award'']) = Some [JStr ''award'']"
    "page_items (page_resp []) = Some []"
    by (simp_all add: page_items_def page_resp_def)
  have d: "\<forall>n. \<not> adls_fails world_one_page n"
    by (simp add: world_one_page_def world0_def)
  have h1: "\<forall>n p. 1 \<le> p \<and> p \<le> int 1 \<longrightarrow>
             (\<exists>r xs. http_get world_one_page n awards_url (usaspending_params ''abc'' 50 p)
                       = Responded r \<and> page_items r = Some xs \<and> xs \<noteq> [])"
  proof (intro allI impI)
    fix n :: nat and p :: int
    assume "1 \<le> p \<and> p \<le> int 1"
    then have "p = 1" by simp
    then show "\<exists>r xs. http_get world_one_page n awards_url (usaspending_params ''abc'' 50 p)
                       = Responded r \<and> page_items r = Some xs \<and> xs \<noteq> []"
      using b(1) c(1) by simp
  qed
  have h2: "\<forall>n. \<exists>r. http_get world_one_page n awards_url
                        (usaspending_params ''abc'' 50 (int 1 + 1)) = Responded r \<and>
                     page_items r = Some []"
    using b(2) c(2) by simp
  have h4: "(0::real) \<le> 1 / 5"
    by simp
  have h5: "1 / 5 \<le> sleep_max world_one_page"
    by (simp add: world_one_page_def world0_def)
  have up: "paged_moves ''abc'' 50 (1 / 5) 1 (int 1 + 1) =
           [Get awards_url (usaspending_params ''abc'' 50 1), Pause (1 / 5),
            Get awards_url (usaspending_params ''abc'' 50 2)]"
    by (simp add: paged_moves_def upto_rec1)
  note T1 = structured_requests_single_or_paged [where s = "init_state 100" and cfg = cfg0
      and w = world0 and adls = False and dry = False and src = "''usa''" and nt = "[]"
      and outdir = "''anduril/usa/20240101''" and ap = "''recipient_id=abc-C''"]
  note T2 = structured_requests_single_or_paged [where s = "init_state 100" and cfg = cfg0
      and w = world_one_page and rid = "''abc''" and psz = 50 and sl = "1 / 5" and N = 1]
  have q1: "list_all (\<lambda>e. \<not> is_sleep e)
     (new_events (init_state 100)
        (snd (usaspending_branch cfg0 world0 False False ''usa'' [] ''anduril/usa/20240101''
                ''recipient_id=abc-C'' (init_state 100))))"
    using T1 by (rule conjunct1)
  have "\<exists>s'. fetch_usaspending_for_recipient cfg0 world_one_page ''abc'' 50 (1 / 5)
            (init_state 100) = Some (None, s') \<and>
         moves (new_events (init_state 100) s') = paged_moves ''abc'' 50 (1 / 5) 1 (int 1 + 1)"
    using T2 a h1 h2 d h4 h5 by blast
  then have q2: "\<exists>s'. fetch_usaspending_for_recipient cfg0 world_one_page ''abc'' 50 (1 / 5)
            (init_state 100) = Some (None, s') \<and>
         moves (new_events (init_state 100) s') =
           [Get awards_url (usaspending_params ''abc'' 50 1), Pause (1 / 5),
            Get awards_url (usaspending_params ''abc'' 50 2)]"
    unfolding up .
  show ?thesis
    using z q1 a b(1) c(1) b(2) c(2) d h4 h5 q2 by (intro conjI)
qed

subsection \<open>C4: content artifacts and their sidecars\<close>


lemma put_log_simps [simp]:
  "put_log (tock w s) = put_log s"
  "put_log (emit e s) = put_log s @ (if is_put e then [e] else [])"
  by (simp_all add: put_log_def)

lemma pl_time_sleep [simp]: "put_log (snd (time_sleep w x s)) = put_log s"
  by (simp add: time_sleep_def put_log_def)

lemma pl_backoff [simp]: "put_log (snd (backoff_429 cfg w resp s)) = put_log s"
  by (simp add: backoff_429_def split: option.splits)

lemma pl_lookup [simp]: "put_log (snd (get_robots_parser_for_domain w d s)) = put_log s"
  by (simp add: get_robots_parser_for_domain_def)

lemma pl_wait [simp]: "put_log (snd (wait_for_domain cfg w d s)) = put_log s"
  by (simp add: wait_for_domain_def Let_def split: option.splits)

lemma pl_record [simp]: "put_log (record_domain_request cfg d rp s) = put_log s"
  by (simp add: put_log_def record_effect)

lemma pl_polite_fetch [simp]: "put_log (snd (polite_fetch cfg w url s)) = put_log s"
  by (simp add: polite_fetch_def Let_def case_prod_beta split: option.splits http_outcome.splits)















subsection \<open>C10: the entries of a feed\<close>

lemma json_puts_simps [simp]:
  "json_puts [] = []"
  "json_puts (xs @ ys) = json_puts xs @ json_puts ys"
  "json_puts (e # es) = (case e of Put b d f (Json j) \<Rightarrow> [j] | _ \<Rightarrow> []) @ json_puts es"
  by (simp_all add: json_puts_def)

lemma text_puts_simps [simp]:
  "text_puts [] = []"
  "text_puts (xs @ ys) = text_puts xs @ text_puts ys"
  "text_puts (e # es) = (case e of Put b d f (Text x) \<Rightarrow> [x] | _ \<Rightarrow> []) @ text_puts es"
  by (simp_all add: text_puts_def)

lemma store_entry_json:
  "json_puts (trace (snd (store_entry cfg w src entry s))) =
     json_puts (trace s) @ (if adls_fails w (tick s) then [] else [item_of entry])"
  by (auto simp add: store_entry_def Let_def adls_upload_def time_sleep_def item_of_def
      split: option.splits http_outcome.splits if_splits)

lemma store_entry_written:
  "fst (store_entry cfg w src entry s) = None \<Longrightarrow> \<not> adls_fails w (tick s)"
  by (auto simp add: store_entry_def Let_def adls_upload_def
      split: option.splits http_outcome.splits if_splits)

lemma store_entries_json:
  "\<exists>k \<le> length entries.
      json_puts (trace (snd (store_entries cfg w src entries s))) =
        json_puts (trace s) @ map item_of (take k entries) \<and>
      (fst (store_entries cfg w src entries s) = None \<longrightarrow> k = length entries)"
proof (induction entries arbitrary: s)
  case Nil
  show ?case by simp
next
  case (Cons e entries)
  let ?s1 = "snd (store_entry cfg w src e s)"
  show ?case
  proof (cases "fst (store_entry cfg w src e s)")
    case None
    obtain k where k: "k \<le> length entries"
      "json_puts (trace (snd (store_entries cfg w src entries ?s1))) =
        json_puts (trace ?s1) @ map item_of (take k entries)"
      "fst (store_entries cfg w src entries ?s1) = None \<longrightarrow> k = length entries"
      using Cons.IH by blast
    have ok: "\<not> adls_fails w (tick s)"
      using store_entry_written [OF None] .
    show ?thesis
      using None k ok store_entry_json [of cfg w src e s]
      by (intro exI [of _ "Suc k"]) (simp add: case_prod_beta)
  next
    case (Some x)
    show ?thesis
    proof (cases "adls_fails w (tick s)")
      case True
      then show ?thesis
        using Some store_entry_json [of cfg w src e s]
        by (intro exI [of _ 0]) (simp add: case_prod_beta)
    next
      case False
      then show ?thesis
        using Some store_entry_json [of cfg w src e s]
        by (intro exI [of _ 1]) (simp add: case_prod_beta)
    qed
  qed
qed

lemma py_take_nonneg: "0 \<le> n \<Longrightarrow> py_take n xs = take (nat n) xs"
  by (simp add: py_take_def)

lemma rss_json:
  assumes run: "R = store_entries cfg w src (take n feed) s0"
    and j0: "json_puts (trace s0) = json_puts (trace s)"
  shows "\<exists>k \<le> n.
            json_puts (trace (snd R)) = json_puts (trace s) @ map item_of (take k feed) \<and>
            (fst R = None \<longrightarrow> k = min n (length feed))"
proof -
  have "\<exists>k \<le> length (take n feed).
      json_puts (trace (snd R)) = json_puts (trace s0) @ map item_of (take k (take n feed)) \<and>
      (fst R = None \<longrightarrow> k = length (take n feed))"
    unfolding run by (rule store_entries_json)
  then obtain k where k: "k \<le> length (take n feed)"
    "json_puts (trace (snd R)) = json_puts (trace s0) @ map item_of (take k (take n feed))"
    "fst R = None \<longrightarrow> k = length (take n feed)"
    by (elim exE conjE)
  have k1: "k \<le> n"
    using k(1) by simp
  have k2: "take k (take n feed) = take k feed"
    using k1 by (simp add: min_def)
  show ?thesis
  proof (intro exI conjI)
    show "k \<le> n" by (rule k1)
    show "json_puts (trace (snd R)) = json_puts (trace s) @ map item_of (take k feed)"
      using k(2) j0 k2 by simp
    show "fst R = None \<longrightarrow> k = min n (length feed)"
      using k(3) by (simp add: min.commute)
  qed
qed

lemma bodies_of_simps [simp]:
  "bodies_of [] = []"
  "bodies_of (None # hs) = bodies_of hs"
  "bodies_of (Some b # hs) = b # bodies_of hs"
  by (simp_all add: bodies_of_def)

lemma store_entry_html:
  "text_puts (trace (snd (store_entry cfg w src entry s))) =
     text_puts (trace s) @
     (if adls_fails w (tick s) then []
      else (case article_of w entry (Suc (tick s)) of
              None \<Rightarrow> []
            | Some body \<Rightarrow> if adls_fails w (Suc (Suc (tick s))) then [] else [body]))"
  by (auto simp add: store_entry_def Let_def adls_upload_def time_sleep_def article_of_def
      split: option.splits http_outcome.splits if_splits)

lemma store_entry_html_opt:
  "\<exists>h. html_ok w entry h \<and>
       text_puts (trace (snd (store_entry cfg w src entry s))) =
         text_puts (trace s) @ bodies_of [h]"
proof (cases "adls_fails w (tick s) \<or> adls_fails w (Suc (Suc (tick s)))
              \<or> article_of w entry (Suc (tick s)) = None")
  case True
  have "html_ok w entry None"
    by (simp add: html_ok_def)
  moreover have "text_puts (trace (snd (store_entry cfg w src entry s))) =
         text_puts (trace s) @ bodies_of [None]"
    using True by (auto simp add: store_entry_html split: option.splits)
  ultimately show ?thesis by blast
next
  case False
  then obtain body where b: "article_of w entry (Suc (tick s)) = Some body"
    by (cases "article_of w entry (Suc (tick s))") auto
  have "html_ok w entry (Some body)"
    using b by (auto simp add: html_ok_def)
  moreover have "text_puts (trace (snd (store_entry cfg w src entry s))) =
         text_puts (trace s) @ bodies_of [Some body]"
    using False b by (simp add: store_entry_html)
  ultimately show ?thesis by blast
qed

lemma bodies_of_Cons: "bodies_of (h # hs) = bodies_of [h] @ bodies_of hs"
  by (simp add: bodies_of_def)

lemma store_entries_html:
  "\<exists>k htmls. k \<le> length entries \<and> list_all2 (html_ok w) (take k entries) htmls \<and>
      text_puts (trace (snd (store_entries cfg w src entries s))) =
        text_puts (trace s) @ bodies_of htmls"
proof (induction entries arbitrary: s)
  case Nil
  have "(0::nat) \<le> length ([] :: (string \<rightharpoonup> string) list) \<and>
        list_all2 (html_ok w) (take 0 []) [] \<and>
        text_puts (trace (snd (store_entries cfg w src [] s))) = text_puts (trace s) @ bodies_of []"
    by simp
  then show ?case by blast
next
  case (Cons e entries)
  let ?s1 = "snd (store_entry cfg w src e s)"
  obtain h where h: "html_ok w e h"
      "text_puts (trace ?s1) = text_puts (trace s) @ bodies_of [h]"
    using store_entry_html_opt [of w e cfg src s] by (elim exE conjE)
  show ?case
  proof (cases "fst (store_entry cfg w src e s)")
    case None
    obtain k hs where k: "k \<le> length entries" "list_all2 (html_ok w) (take k entries) hs"
      "text_puts (trace (snd (store_entries cfg w src entries ?s1))) =
         text_puts (trace ?s1) @ bodies_of hs"
      using Cons.IH [of ?s1] by (elim exE conjE)
    have "Suc k \<le> length (e # entries) \<and>
          list_all2 (html_ok w) (take (Suc k) (e # entries)) (h # hs) \<and>
          text_puts (trace (snd (store_entries cfg w src (e # entries) s))) =
            text_puts (trace s) @ bodies_of (h # hs)"
      using None k h by (simp add: case_prod_beta bodies_of_Cons [of h hs])
    then show ?thesis by blast
  next
    case (Some x)
    have "Suc 0 \<le> length (e # entries) \<and>
          list_all2 (html_ok w) (take (Suc 0) (e # entries)) [h] \<and>
          text_puts (trace (snd (store_entries cfg w src (e # entries) s))) =
            text_puts (trace s) @ bodies_of [h]"
      using Some h by (simp add: case_prod_beta)
    then show ?thesis by blast
  qed
qed

lemma rss_run_any:
  assumes "AZURE_STORAGE_ACCOUNT_NAME cfg = Some account"
  shows "fetch_rss_and_store cfg w url src max_items s =
     store_entries cfg w src (py_take max_items (feed_entries w (tick s) url))
       (tock w (emit (FeedGet url) s))"
  using assms by (simp add: fetch_rss_and_store_def)

lemma py_take_neg: "n < 0 \<Longrightarrow> py_take n xs = take (length xs - nat (- n)) xs"
  by (simp add: py_take_def)

lemma rss_html:
  assumes run: "R = store_entries cfg w src entries s0"
    and t0: "text_puts (trace s0) = text_puts (trace s)"
  shows "\<exists>k htmls. k \<le> length entries \<and> list_all2 (html_ok w) (take k entries) htmls \<and>
      text_puts (trace (snd R)) = text_puts (trace s) @ bodies_of htmls"
proof -
  have "\<exists>k htmls. k \<le> length entries \<and> list_all2 (html_ok w) (take k entries) htmls \<and>
      text_puts (trace (snd R)) = text_puts (trace s0) @ bodies_of htmls"
    unfolding run by (rule store_entries_html)
  then show ?thesis
    unfolding t0 .
qed

text \<open>
  C10, as stated, says that at most \<^verbatim>\<open>max_items\<close> entries are processed. With
  \<^verbatim>\<open>max_items = -1\<close> the slice \<^verbatim>\<open>feed.entries[:max_items]\<close> drops the last entry
  only: of a feed of three entries, two are processed and written.
\<close>

theorem rss_max_items_counterexample:
  "\<not> int (length (json_puts (trace (snd (fetch_rss_and_store cfg0 world_feed
           ''https://example.com/feed'' ''news'' (- 1) (init_state 100)))))) \<le> - 1 \<and>
   json_puts (trace (snd (fetch_rss_and_store cfg0 world_feed
           ''https://example.com/feed'' ''news'' (- 1) (init_state 100)))) =
     [item_of entry1, item_of entry2]"
  by (simp add: fetch_rss_and_store_def store_entry_def py_take_def safe_title_of_def jopt_def
      item_of_def entry1_def entry2_def entry3_def resp_html_def world_feed_def
      eval_defs world_defs)

text \<open>
  C10, amended. The entries processed are those of the slice
  \<^verbatim>\<open>feed.entries[:max_items]\<close>, in feed order. For a \<^verbatim>\<open>max_items\<close> that is not
  negative, the JSON artifacts written are the items of the first \<open>k\<close> entries of the
  feed, for some \<open>k\<close> of at most \<^verbatim>\<open>max_items\<close>, and when the run ends without an
  exception \<open>k\<close> is the smaller of \<^verbatim>\<open>max_items\<close> and the length of the feed. For a
  negative \<^verbatim>\<open>max_items\<close> the same holds with the length of the feed less
  \<open>|max_items|\<close> in the place of \<^verbatim>\<open>max_items\<close>: the slice drops the last
  \<open>|max_items|\<close> entries. The HTML artifacts written are at most one per entry of the
  slice, in the order of the entries, each the text of a response with status 200 and
  more than 200 characters to the GET of the link of its own entry. For one entry: an
  HTML artifact is written exactly when the item was written, the GET of the entry's
  link that follows returns status 200 with a text longer than 200 characters, and the
  write of that text succeeds.
\<close>

theorem rss_items_in_feed_order:
  assumes "AZURE_STORAGE_ACCOUNT_NAME cfg \<noteq> None"
  shows "(0 \<le> max_items \<longrightarrow>
          (\<exists>k \<le> nat max_items.
             json_puts (trace (snd (fetch_rss_and_store cfg w url src max_items s))) =
               json_puts (trace s) @ map item_of (take k (feed_entries w (tick s) url)) \<and>
             (fst (fetch_rss_and_store cfg w url src max_items s) = None \<longrightarrow>
                k = min (nat max_items) (length (feed_entries w (tick s) url))))) \<and>
         (max_items < 0 \<longrightarrow>
          (\<exists>k \<le> length (feed_entries w (tick s) url) - nat (- max_items).
             json_puts (trace (snd (fetch_rss_and_store cfg w url src max_items s))) =
               json_puts (trace s) @ map item_of (take k (feed_entries w (tick s) url)) \<and>
             (fst (fetch_rss_and_store cfg w url src max_items s) = None \<longrightarrow>
                k = length (feed_entries w (tick s) url) - nat (- max_items)))) \<and>
         (\<exists>k htmls.
             k \<le> length (py_take max_items (feed_entries w (tick s) url)) \<and>
             list_all2 (html_ok w)
               (take k (py_take max_items (feed_entries w (tick s) url))) htmls \<and>
             text_puts (trace (snd (fetch_rss_and_store cfg w url src max_items s))) =
               text_puts (trace s) @ bodies_of htmls) \<and>
         text_puts (trace (snd (store_entry cfg w src entry s0))) =
           text_puts (trace s0) @
           (if adls_fails w (tick s0) then []
            else (case article_of w entry (Suc (tick s0)) of
                    None \<Rightarrow> []
                  | Some body \<Rightarrow> if adls_fails w (Suc (Suc (tick s0))) then [] else [body]))"
proof -
  obtain account where acc: "AZURE_STORAGE_ACCOUNT_NAME cfg = Some account"
    using assms by (cases "AZURE_STORAGE_ACCOUNT_NAME cfg") simp_all
  let ?feed = "feed_entries w (tick s) url"
  let ?R = "fetch_rss_and_store cfg w url src max_items s"
  note run = rss_run_any [OF acc, of w url src max_items s]
  have j0: "json_puts (trace (tock w (emit (FeedGet url) s))) = json_puts (trace s)"
    by simp
  have t0: "text_puts (trace (tock w (emit (FeedGet url) s))) = text_puts (trace s)"
    by simp
  have A: "0 \<le> max_items \<longrightarrow>
          (\<exists>k \<le> nat max_items.
             json_puts (trace (snd ?R)) = json_puts (trace s) @ map item_of (take k ?feed) \<and>
             (fst ?R = None \<longrightarrow> k = min (nat max_items) (length ?feed)))"
  proof
    assume p: "0 \<le> max_items"
    have r: "?R = store_entries cfg w src (take (nat max_items) ?feed)
                    (tock w (emit (FeedGet url) s))"
      using run p by (simp add: py_take_nonneg)
    show "\<exists>k \<le> nat max_items.
             json_puts (trace (snd ?R)) = json_puts (trace s) @ map item_of (take k ?feed) \<and>
             (fst ?R = None \<longrightarrow> k = min (nat max_items) (length ?feed))"
      using rss_json [OF r j0] .
  qed
  have B: "max_items < 0 \<longrightarrow>
          (\<exists>k \<le> length ?feed - nat (- max_items).
             json_puts (trace (snd ?R)) = json_puts (trace s) @ map item_of (take k ?feed) \<and>
             (fst ?R = None \<longrightarrow> k = length ?feed - nat (- max_items)))"
  proof
    assume n: "max_items < 0"
    have r: "?R = store_entries cfg w src (take (length ?feed - nat (- max_items)) ?feed)
                    (tock w (emit (FeedGet url) s))"
      using run n by (simp add: py_take_neg)
    have m: "min (length ?feed - nat (- max_items)) (length ?feed) =
               length ?feed - nat (- max_items)"
      by simp
    show "\<exists>k \<le> length ?feed - nat (- max_items).
             json_puts (trace (snd ?R)) = json_puts (trace s) @ map item_of (take k ?feed) \<and>
             (fst ?R = None \<longrightarrow> k = length ?feed - nat (- max_items))"
      using rss_json [OF r j0] unfolding m .
  qed
  have C: "\<exists>k htmls.
             k \<le> length (py_take max_items ?feed) \<and>
             list_all2 (html_ok w) (take k (py_take max_items ?feed)) htmls \<and>
             text_puts (trace (snd ?R)) = text_puts (trace s) @ bodies_of htmls"
    using rss_html [OF run t0] .
  have D: "text_puts (trace (snd (store_entry cfg w src entry s0))) =
           text_puts (trace s0) @
           (if adls_fails w (tick s0) then []
            else (case article_of w entry (Suc (tick s0)) of
                    None \<Rightarrow> []
                  | Some body \<Rightarrow> if adls_fails w (Suc (Suc (tick s0))) then [] else [body]))"
    by (rule store_entry_html)
  show ?thesis
    using A B C D by (intro conjI)
qed

theorem rss_items_in_feed_order_witness:
  "AZURE_STORAGE_ACCOUNT_NAME cfg0 \<noteq> None \<and>
   feed_entries world_feed (tick (init_state 100)) ''https://example.com/feed'' =
     [entry1, entry2, entry3] \<and>
   (0::int) \<le> 2 \<and>
   fst (fetch_rss_and_store cfg0 world_feed ''https://example.com/feed'' ''news'' 2
          (init_state 100)) = None \<and>
   json_puts (trace (snd (fetch_rss_and_store cfg0 world_feed ''https://example.com/feed''
                            ''news'' 2 (init_state 100)))) =
     json_puts (trace (init_state 100)) @ map item_of (take 2 [entry1, entry2, entry3]) \<and>
   (- 1::int) < 0 \<and>
   fst (fetch_rss_and_store cfg0 world_feed ''https://example.com/feed'' ''news'' (- 1)
          (init_state 100)) = None \<and>
   json_puts (trace (snd (fetch_rss_and_store cfg0 world_feed ''https://example.com/feed''
                            ''news'' (- 1) (init_state 100)))) =
     json_puts (trace (init_state 100)) @ map item_of (take 2 [entry1, entry2, entry3]) \<and>
   \<not> adls_fails world_feed (tick (init_state 100)) \<and>
   \<not> adls_fails world_feed (Suc (Suc (tick (init_state 100)))) \<and>
   article_of world_feed entry1 (Suc (tick (init_state 100))) = Some (replicate 201 (CHR ''x'')) \<and>
   text_puts (trace (snd (store_entry cfg0 world_feed ''news'' entry1 (init_state 100)))) =
     text_puts (trace (init_state 100)) @ [replicate 201 (CHR ''x'')]"
proof -
  let ?u = "''https://example.com/feed''"
  have b: "AZURE_STORAGE_ACCOUNT_NAME cfg0 \<noteq> None"
    by (simp add: cfg0_def)
  have d: "feed_entries world_feed (tick (init_state 100)) ?u = [entry1, entry2, entry3]"
    by (simp add: world_feed_def)
  have a: "(0::int) \<le> 2" by simp
  have a': "(- 1::int) < 0" by simp
  have c: "fst (fetch_rss_and_store cfg0 world_feed ?u ''news'' 2 (init_state 100)) = None"
    by (simp add: fetch_rss_and_store_def store_entry_def py_take_def safe_title_of_def jopt_def
      entry1_def entry2_def entry3_def resp_html_def world_feed_def eval_defs world_defs)
  have c': "fst (fetch_rss_and_store cfg0 world_feed ?u ''news'' (- 1) (init_state 100)) = None"
    by (simp add: fetch_rss_and_store_def store_entry_def py_take_def safe_title_of_def jopt_def
      entry1_def entry2_def entry3_def resp_html_def world_feed_def eval_defs world_defs)
  have f: "\<not> adls_fails world_feed (tick (init_state 100))"
    "\<not> adls_fails world_feed (Suc (Suc (tick (init_state 100))))"
    by (simp_all add: world_feed_def world0_def)
  have g: "article_of world_feed entry1 (Suc (tick (init_state 100))) =
             Some (replicate 201 (CHR ''x''))"
    by (simp add: article_of_def entry1_def world_feed_def resp_html_def resp_pdf_def)
  note T = rss_items_in_feed_order [OF b, where w = world_feed and url = ?u and src = "''news''"
      and s = "init_state 100" and entry = entry1 and ?s0.0 = "init_state 100"]
  have "\<exists>k \<le> nat 2.
      json_puts (trace (snd (fetch_rss_and_store cfg0 world_feed ?u ''news'' 2 (init_state 100)))) =
        json_puts (trace (init_state 100)) @
        map item_of (take k (feed_entries world_feed (tick (init_state 100)) ?u)) \<and>
      (fst (fetch_rss_and_store cfg0 world_feed ?u ''news'' 2 (init_state 100)) = None \<longrightarrow>
         k = min (nat 2) (length (feed_entries world_feed (tick (init_state 100)) ?u)))"
    using T [where max_items = 2, THEN conjunct1, THEN mp, OF a] .
  then obtain k where k:
    "json_puts (trace (snd (fetch_rss_and_store cfg0 world_feed ?u ''news'' 2 (init_state 100)))) =
       json_puts (trace (init_state 100)) @
       map item_of (take k (feed_entries world_feed (tick (init_state 100)) ?u))"
    "fst (fetch_rss_and_store cfg0 world_feed ?u ''news'' 2 (init_state 100)) = None \<longrightarrow>
       k = min (nat 2) (length (feed_entries world_feed (tick (init_state 100)) ?u))"
    by (elim exE conjE)
  have k2: "k = 2"
    using k(2) c unfolding d by simp
  have e: "json_puts (trace (snd (fetch_rss_and_store cfg0 world_feed ?u ''news'' 2
                                     (init_state 100)))) =
        json_puts (trace (init_state 100)) @ map item_of (take 2 [entry1, entry2, entry3])"
    using k(1) unfolding d k2 .
  have "\<exists>k \<le> length (feed_entries world_feed (tick (init_state 100)) ?u) - nat (- (- 1)).
      json_puts (trace (snd (fetch_rss_and_store cfg0 world_feed ?u ''news'' (- 1)
                               (init_state 100)))) =
        json_puts (trace (init_state 100)) @
        map item_of (take k (feed_entries world_feed (tick (init_state 100)) ?u)) \<and>
      (fst (fetch_rss_and_store cfg0 world_feed ?u ''news'' (- 1) (init_state 100)) = None \<longrightarrow>
         k = length (feed_entries world_feed (tick (init_state 100)) ?u) - nat (- (- 1)))"
    using T [where max_items = "- 1", THEN conjunct2, THEN conjunct1, THEN mp, OF a'] .
  then obtain k' where k':
    "json_puts (trace (snd (fetch_rss_and_store cfg0 world_feed ?u ''news'' (- 1)
                               (init_state 100)))) =
       json_puts (trace (init_state 100)) @
       map item_of (take k' (feed_entries world_feed (tick (init_state 100)) ?u))"
    "fst (fetch_rss_and_store cfg0 world_feed ?u ''news'' (- 1) (init_state 100)) = None \<longrightarrow>
       k' = length (feed_entries world_feed (tick (init_state 100)) ?u) - nat (- (- 1))"
    by (elim exE conjE)
  have k2': "k' = 2"
    using k'(2) c' unfolding d by simp
  have e': "json_puts (trace (snd (fetch_rss_and_store cfg0 world_feed ?u ''news'' (- 1)
                                     (init_state 100)))) =
        json_puts (trace (init_state 100)) @ map item_of (take 2 [entry1, entry2, entry3])"
    using k'(1) unfolding d k2' .
  have "text_puts (trace (snd (store_entry cfg0 world_feed ''news'' entry1 (init_state 100)))) =
           text_puts (trace (init_state 100)) @
           (if adls_fails world_feed (tick (init_state 100)) then []
            else (case article_of world_feed entry1 (Suc (tick (init_state 100))) of
                    None \<Rightarrow> []
                  | Some body \<Rightarrow>
                      if adls_fails world_feed (Suc (Suc (tick (init_state 100)))) then []
                      else [body]))"
    using T [where max_items = 2, THEN conjunct2, THEN conjunct2, THEN conjunct2] .
  then have h: "text_puts (trace (snd (store_entry cfg0 world_feed ''news'' entry1
                                          (init_state 100)))) =
     text_puts (trace (init_state 100)) @ [replicate 201 (CHR ''x'')]"
    using f unfolding g by simp
  show ?thesis
    using b d a c e a' c' e' f g h by (intro conjI)
qed

end
